theory Spec2Isabelle
  imports Main "HOL-Library.AList"
begin

section \<open>JSON values\<close>

text \<open>
  The script works on what \<^verbatim>\<open>json.load\<close> returns: \<^verbatim>\<open>None\<close>, booleans,
  integers, floats, strings, lists and dicts. A dict keeps its insertion order, so it is
  an association list; \<open>map_of\<close> is the lookup. The keys of a dict that Python built
  are distinct; no statement below needs that. A float is only ever formatted by the
  script, never computed with, so it is carried by its Python \<^verbatim>\<open>repr\<close>, the shortest
  decimal text that reads back as the same double. Strings are ASCII texts: case
  mapping below is the ASCII one, on which Python's \<^verbatim>\<open>str.upper\<close> and
  \<^verbatim>\<open>str.lower\<close> agree.
\<close>

datatype json =
    JNull
  | JBool bool
  | JInt int
  | JFloat string
  | JStr string
  | JList "json list"
  | JObj "(string \<times> json) list"

type_synonym dict = "(string \<times> json) list"

datatype error = KeyError | TypeError | AttributeError

text \<open>\<^verbatim>\<open>d.get(k)\<close>: the value, or \<^verbatim>\<open>None\<close> when the key is missing.\<close>

definition dict_get :: "dict \<Rightarrow> string \<Rightarrow> json" where
  "dict_get d k = (case map_of d k of None \<Rightarrow> JNull | Some v \<Rightarrow> v)"

section \<open>Characters and strings of Python\<close>

definition ascii_lowercase :: string where
  "ascii_lowercase = ''abcdefghijklmnopqrstuvwxyz''"

definition ascii_uppercase :: string where
  "ascii_uppercase = ''ABCDEFGHIJKLMNOPQRSTUVWXYZ''"

text \<open>\<^verbatim>\<open>char.upper()\<close> and \<^verbatim>\<open>char.lower()\<close> on one character.\<close>

definition upper :: "char \<Rightarrow> char" where
  "upper c = (case map_of (zip ascii_lowercase ascii_uppercase) c of None \<Rightarrow> c | Some u \<Rightarrow> u)"

definition lower :: "char \<Rightarrow> char" where
  "lower c = (case map_of (zip ascii_uppercase ascii_lowercase) c of None \<Rightarrow> c | Some l \<Rightarrow> l)"

text \<open>\<^verbatim>\<open>s.lower()\<close> on a string.\<close>

definition str_lower :: "string \<Rightarrow> string" where
  "str_lower s = map lower s"

section \<open>Predicate names\<close>

text \<open>
  \<^verbatim>\<open>convert_predicate_name\<close>: the loop over \<^verbatim>\<open>enumerate(p)\<close>, with the index
  \<open>i\<close> of the character at hand. The test of the source is \<^verbatim>\<open>char == char.upper()\<close>.
\<close>

fun convert_loop :: "nat \<Rightarrow> string \<Rightarrow> string" where
  "convert_loop i [] = []"
| "convert_loop i (char # p) =
     (if char = upper char
      then (if i > 0 then ''-'' else []) @ [lower char]
      else [char]) @ convert_loop (Suc i) p"

definition convert_predicate_name :: "string \<Rightarrow> string" where
  "convert_predicate_name p = convert_loop 0 p"

text \<open>\<^verbatim>\<open>unconvert_predicate_name\<close>: the loop with its flag \<^verbatim>\<open>to_upper\<close>.\<close>

fun unconvert_loop :: "bool \<Rightarrow> string \<Rightarrow> string" where
  "unconvert_loop to_upper [] = []"
| "unconvert_loop to_upper (char # p) =
     (if char = CHR ''-'' then unconvert_loop True p
      else (if to_upper then upper char else char) # unconvert_loop False p)"

definition unconvert_predicate_name :: "string \<Rightarrow> string" where
  "unconvert_predicate_name p = unconvert_loop False p"

section \<open>Paths and identifiers\<close>

text \<open>
  \<^verbatim>\<open>p.rfind(sep)\<close> for a separator of one character: the highest index where it
  stands, or \<open>-1\<close>.
\<close>

definition rfind :: "string \<Rightarrow> char \<Rightarrow> int" where
  "rfind p sep =
     (if sep \<in> set p
      then int (length p) - 1 - int (length (takeWhile (\<lambda>c. c \<noteq> sep) (rev p)))
      else - 1)"

text \<open>\<^verbatim>\<open>s.rstrip(sep)\<close> for a separator of one character.\<close>

definition rstrip :: "string \<Rightarrow> char \<Rightarrow> string" where
  "rstrip s sep = rev (dropWhile (\<lambda>c. c = sep) (rev s))"

text \<open>
  \<^verbatim>\<open>os.path.split\<close> of \<^verbatim>\<open>posixpath\<close>:
  \<^verbatim>\<open>
  i = p.rfind(sep) + 1
  head, tail = p[:i], p[i:]
  if head and head != sep*len(head):
      head = head.rstrip(sep)
  return head, tail
  \<close>
\<close>

definition os_path_split :: "string \<Rightarrow> string \<times> string" where
  "os_path_split p =
     (let i = nat (rfind p CHR ''/'' + 1);
          head = take i p;
          tail = drop i p
      in (if head \<noteq> [] \<and> head \<noteq> replicate (length head) CHR ''/''
          then rstrip head CHR ''/'' else head,
          tail))"

text \<open>\<^verbatim>\<open>s.split(sep)\<close> for a separator of one character; the result is never empty.\<close>

fun str_split :: "string \<Rightarrow> char \<Rightarrow> string list" where
  "str_split [] sep = [[]]"
| "str_split (c # s) sep =
     (if c = sep then [] # str_split s sep
      else (case str_split s sep of [] \<Rightarrow> [[c]] | w # ws \<Rightarrow> (c # w) # ws))"

text \<open>
  What the script takes from outside the repository: the hexadecimal SHA-1 digest of
  \<^verbatim>\<open>hashlib\<close>, the uid of the project that \<^verbatim>\<open>geodesic.create_project\<close>
  returned, and Python's \<^verbatim>\<open>repr\<close> of a list or dict.
\<close>

record env =
  sha1_hexdigest :: "string \<Rightarrow> string"
  project_uid :: string
  repr_container :: "json \<Rightarrow> string"

text \<open>
  \<^verbatim>\<open>convert_id\<close>. Its argument is a \<^verbatim>\<open>str\<close>; \<open>as_str\<close> below is the
  \<^verbatim>\<open>TypeError\<close> that \<^verbatim>\<open>os.path.split\<close> raises on any other JSON value.
  \<^verbatim>\<open>[-1]\<close> is \<open>last\<close>: the list that \<^verbatim>\<open>split\<close> returns is never empty.
\<close>

definition convert_id :: "env \<Rightarrow> string \<Rightarrow> string" where
  "convert_id env id' =
     (let (iri, uid) = os_path_split id';
          prefix = last (str_split iri CHR ''/'');
          h = sha1_hexdigest env id'
      in ''janes-'' @ prefix @ ''-'' @ str_lower uid @ ''-'' @ take 8 h)"

definition convert_type :: "string \<Rightarrow> string" where
  "convert_type id' =
     (let (_, uid) = os_path_split id';
          uid = convert_predicate_name uid
      in str_lower uid)"

definition as_str :: "json \<Rightarrow> error + string" where
  "as_str v = (case v of JStr s \<Rightarrow> Inr s | _ \<Rightarrow> Inl TypeError)"

text \<open>\<^verbatim>\<open>d[k]\<close> on a dict, and \<^verbatim>\<open>x[k]\<close> with a string key on any JSON value.\<close>

definition getitem :: "dict \<Rightarrow> string \<Rightarrow> error + json" where
  "getitem d k = (case map_of d k of None \<Rightarrow> Inl KeyError | Some v \<Rightarrow> Inr v)"

definition subscript :: "json \<Rightarrow> string \<Rightarrow> error + json" where
  "subscript x k = (case x of JObj d \<Rightarrow> getitem d k | _ \<Rightarrow> Inl TypeError)"

section \<open>Types and classes\<close>

definition type_class_map :: "(string \<times> string) list" where
  "type_class_map =
    [(''https://data.janes.com/ontologies/equipment/Equipment'', ''Entity''),
     (''https://data.janes.com/ontologies/orbat/MilitaryGroup'', ''Entity''),
     (''https://data.janes.com/ontologies/geo/Country'', ''Entity''),
     (''https://data.janes.com/ontologies/equipment/EquipmentFamily'', ''Property''),
     (''https://data.janes.com/ontologies/organization/Organization'', ''Entity''),
     (''https://data.janes.com/ontologies/classification/Classification'', ''Property''),
     (''https://data.janes.com/ontologies/specifications/Condition'', ''Property''),
     (''https://data.janes.com/ontologies/equipment/EquipmentVariant'', ''Property''),
     (''https://data.janes.com/ontologies/specifications/Specification'', ''Property''),
     (''https://data.janes.com/ontologies/installation/Installation'', ''Entity''),
     (''https://data.janes.com/ontologies/inventory/InServiceInventory'', ''Entity''),
     (''https://data.janes.com/ontologies/agent/Organization'', ''Entity''),
     (''https://data.janes.com/ontologies/inventory/AcquisitionInventory'', ''Entity''),
     (''https://data.janes.com/ontologies/installation/Runway'', ''Entity''),
     (''https://data.janes.com/ontologies/geo/Country'', ''Entity''),
     (''https://data.janes.com/ontologies/agent/JointVenture'', ''Concept''),
     (''https://data.janes.com/ontologies/unit/Unit'', ''Concept'')]"

text \<open>\<^verbatim>\<open>type_class_map.get(_type, 'Entity')\<close>.\<close>

definition object_class_of :: "string \<Rightarrow> string" where
  "object_class_of t = (case map_of type_class_map t of None \<Rightarrow> ''Entity'' | Some c \<Rightarrow> c)"

text \<open>
  The \<^verbatim>\<open>try\<close> block of \<^verbatim>\<open>traverse\<close>: the pair \<^verbatim>\<open>(_type, janesType)\<close>
  it leaves. A missing \<^verbatim>\<open>'type'\<close> (KeyError) and a type that is not a string
  (TypeError in \<^verbatim>\<open>convert_type\<close>) both end in the \<^verbatim>\<open>except\<close> branch.
\<close>

definition type_info :: "dict \<Rightarrow> string \<times> string" where
  "type_info subj =
     (case getitem subj ''type'' of
        Inl e \<Rightarrow> ([], ''*'')
      | Inr t \<Rightarrow>
          (case as_str t of
             Inl e \<Rightarrow> ([], ''*'')
           | Inr t' \<Rightarrow> (t', convert_type t')))"

section \<open>Location\<close>

text \<open>Python's \<^verbatim>\<open>str\<close> of a JSON value, as the f-string applies it.\<close>

definition digit_char :: "nat \<Rightarrow> char" where
  "digit_char n = ''0123456789'' ! n"

fun digits :: "nat \<Rightarrow> string" where
  "digits n = (if n < 10 then [digit_char n] else digits (n div 10) @ [digit_char (n mod 10)])"

definition str_int :: "int \<Rightarrow> string" where
  "str_int i = (if i < 0 then ''-'' @ digits (nat (- i)) else digits (nat i))"

definition format_value :: "env \<Rightarrow> json \<Rightarrow> string" where
  "format_value env v =
     (case v of
        JNull \<Rightarrow> ''None''
      | JBool b \<Rightarrow> (if b then ''True'' else ''False'')
      | JInt i \<Rightarrow> str_int i
      | JFloat r \<Rightarrow> r
      | JStr s \<Rightarrow> s
      | _ \<Rightarrow> repr_container env v)"

text \<open>
  \<^verbatim>\<open>extract_location_info\<close>. \<open>JNull\<close> is Python's \<^verbatim>\<open>None\<close>; the dict
  comprehension keeps the entries whose value is not \<^verbatim>\<open>None\<close>. \<^verbatim>\<open>la.get\<close> on a
  value that is not a dict raises AttributeError.
\<close>

definition extract_location_info :: "env \<Rightarrow> dict \<Rightarrow> error + dict" where
  "extract_location_info env obj =
     (case map_of obj ''locatedAt'' of
        None \<Rightarrow> Inr []
      | Some (JObj la) \<Rightarrow>
          (let lat = dict_get la ''lat'';
               lon = dict_get la ''long'';
               geom = (if lat \<noteq> JNull \<and> lon \<noteq> JNull
                       then JStr (''POINT('' @ format_value env lon @ '' '' @ format_value env lat @ '')'')
                       else JNull);
               location_country = dict_get la ''locationCountry'';
               geoprecision = dict_get la ''geoprecision''
           in Inr (filter (\<lambda>(k, v). v \<noteq> JNull)
                 [(''geometry'', geom),
                  (''location_country'', location_country),
                  (''geoprecision'', geoprecision)]))
      | Some _ \<Rightarrow> Inl AttributeError)"

section \<open>Objects and connections\<close>

text \<open>
  The keyword arguments of \<^verbatim>\<open>dict(alias=..., ..., project=project.uid)\<close>, which
  become the fields of a \<^verbatim>\<open>geodesic.entanglement.Object\<close>; \<open>geometry\<close> is the key
  that is only set for a record with a point. The constructor belongs to the external
  library and is taken to keep the fields it is given.
\<close>

record entanglement_object =
  "alias" :: json
  domain :: string
  object_class :: string
  name :: string
  xid :: string
  type :: string
  item :: dict
  project :: string
  geometry :: "json option"

type_synonym connection = "string \<times> string \<times> string"

text \<open>
  The two accumulators that every call shares. \<^verbatim>\<open>objects\<close> is a dict: writing
  an existing key keeps its place, a new key goes to the end, as \<open>AList.update\<close> does.
\<close>

record state =
  objects :: "(string \<times> entanglement_object) list"
  connections :: "connection list"

text \<open>\<^verbatim>\<open>'id' in subj\<close> for whatever JSON value \<^verbatim>\<open>subj\<close> is.\<close>

fun is_substring :: "string \<Rightarrow> string \<Rightarrow> bool" where
  "is_substring p [] = (p = [])"
| "is_substring p (c # s) = (take (length p) (c # s) = p \<or> is_substring p s)"

fun contains_id :: "json \<Rightarrow> error + bool" where
  "contains_id (JObj d) = Inr (map_of d ''id'' \<noteq> None)"
| "contains_id (JStr s) = Inr (is_substring ''id'' s)"
| "contains_id (JList xs) = Inr (JStr ''id'' \<in> set xs)"
| "contains_id _ = Inl TypeError"

text \<open>Lines 220 to 229 of \<^verbatim>\<open>traverse\<close>: the dict stored under \<^verbatim>\<open>name\<close>.\<close>

definition new_object ::
  "env \<Rightarrow> dict \<Rightarrow> string \<Rightarrow> string \<Rightarrow> string \<Rightarrow> string \<Rightarrow> dict \<Rightarrow> entanglement_object" where
  "new_object env subj name' xid' object_class' janesType props =
     \<lparr>alias = (case map_of subj ''label'' of None \<Rightarrow> JStr name' | Some l \<Rightarrow> l),
      domain = ''military'',
      object_class = object_class',
      name = name',
      xid = xid',
      type = janesType,
      item = props,
      project = project_uid env,
      geometry = None\<rparr>"

text \<open>
  Lines 216 to 233 of \<^verbatim>\<open>traverse\<close>: the class is looked up, the object is stored
  under \<^verbatim>\<open>name\<close> (over whatever stood there), and the geometry, if there is one,
  is set in the stored object.
\<close>

definition store_object ::
  "env \<Rightarrow> dict \<Rightarrow> string \<Rightarrow> string \<Rightarrow> string \<Rightarrow> string \<Rightarrow> dict \<Rightarrow> dict \<Rightarrow> state \<Rightarrow> state" where
  "store_object env subj name' xid' type' janesType loc_info props st =
     (let object_class' = object_class_of type';
          st2 = st\<lparr>objects := AList.update name'
                   (new_object env subj name' xid' object_class' janesType props)
                   (objects st)\<rparr>;
          geom = dict_get loc_info ''geometry''
      in if geom \<noteq> JNull
         then st2\<lparr>objects := AList.map_entry name'
                (\<lambda>obj. obj\<lparr>geometry := Some geom\<rparr>) (objects st2)\<rparr>
         else st2)"

text \<open>\<^verbatim>\<open>connections.append((name, predicate, obj_name))\<close>.\<close>

definition append_connection :: "connection \<Rightarrow> state \<Rightarrow> state" where
  "append_connection c st = st\<lparr>connections := connections st @ [c]\<rparr>"

text \<open>
  The two lines after a nested record became a node:
  \<^verbatim>\<open>obj_name = convert_id(x['id'])\<close>, then the append.
\<close>

definition connect :: "env \<Rightarrow> string \<Rightarrow> string \<Rightarrow> json \<Rightarrow> state \<Rightarrow> error + state" where
  "connect env name' predicate x st =
     (case subscript x ''id'' of
        Inl e \<Rightarrow> Inl e
      | Inr i \<Rightarrow>
          (case as_str i of
             Inl e \<Rightarrow> Inl e
           | Inr i' \<Rightarrow> Inr (append_connection (name', predicate, convert_id env i') st)))"

text \<open>A value found inside a dict is smaller than the dict: the recursion below ends.\<close>

lemma size_map_of: "map_of d k = Some v \<Longrightarrow> size v < size (JObj d)"
  by (induction d) (auto split: if_splits)

lemma size_dict_get: "dict_get d k \<noteq> JNull \<Longrightarrow> size (dict_get d k) < size (JObj d)"
  using size_map_of [of d k] by (auto simp: dict_get_def split: option.splits)

lemma size_loc_info:
  assumes "extract_location_info env subj = Inr loc_info"
    and "dict_get loc_info k \<noteq> JNull"
  shows "size (dict_get loc_info k) < size (JObj subj)"
proof (cases "map_of subj ''locatedAt''")
  case None
  with assms show ?thesis
    by (auto simp: extract_location_info_def dict_get_def)
next
  case (Some v)
  with assms obtain la where v: "v = JObj la"
    by (cases v) (auto simp: extract_location_info_def)
  have la: "size (JObj la) < size (JObj subj)"
    using size_map_of [of subj "''locatedAt''" v] Some v by simp
  have sub: "\<And>key. dict_get la key \<noteq> JNull \<Longrightarrow> size (dict_get la key) < size (JObj subj)"
    using size_dict_get la by (meson less_trans)
  from assms Some v sub show ?thesis
    by (auto simp: extract_location_info_def Let_def dict_get_def [of "_ # _"] dict_get_def [of "[]"]
        split: if_splits)
qed

section \<open>The traversal\<close>

text \<open>
  \<^verbatim>\<open>traverse\<close> and \<^verbatim>\<open>parse_props\<close> call each other. The state is threaded
  through every call, and an exception ends the whole pass: \<open>Inl\<close> is passed on.
  \<open>parse_items\<close> is the loop of \<^verbatim>\<open>parse_props\<close> over \<^verbatim>\<open>subj.items()\<close>, with
  \<^verbatim>\<open>props\<close> as built so far; \<open>parse_list\<close> is its inner loop over the elements
  of a list. The result \<open>None\<close> of \<open>traverse\<close> is Python's \<^verbatim>\<open>None\<close> (the record
  became a node), \<open>Some v\<close> is the value \<^verbatim>\<open>v\<close> handed back.
\<close>

function (sequential)
  traverse :: "env \<Rightarrow> json \<Rightarrow> state \<Rightarrow> error + (json option \<times> state)" and
  parse_props :: "env \<Rightarrow> string \<Rightarrow> dict \<Rightarrow> state \<Rightarrow> error + (dict \<times> state)" and
  parse_items :: "env \<Rightarrow> string \<Rightarrow> dict \<Rightarrow> dict \<Rightarrow> state \<Rightarrow> error + (dict \<times> state)" and
  parse_list :: "env \<Rightarrow> string \<Rightarrow> string \<Rightarrow> json list \<Rightarrow> dict \<Rightarrow> state \<Rightarrow> error + (dict \<times> state)"
where
  "traverse env (JObj subj) st =
     (if map_of subj ''id'' = None then Inr (Some (JObj subj), st)
      else
       (case getitem subj ''id'' of Inl e \<Rightarrow> Inl e | Inr xid' \<Rightarrow>
       (case as_str xid' of Inl e \<Rightarrow> Inl e | Inr xid_s \<Rightarrow>
       (let name' = convert_id env xid_s;
            type' = fst (type_info subj);
            janesType = snd (type_info subj)
        in
       (case extract_location_info env subj of Inl e \<Rightarrow> Inl e | Inr loc_info \<Rightarrow>
       (case parse_props env name' subj st of Inl e \<Rightarrow> Inl e | Inr (props, st1) \<Rightarrow>
       (let st3 = store_object env subj name' xid_s type' janesType loc_info props st1;
            lc = dict_get loc_info ''location_country''
        in
       (case (if lc \<noteq> JNull
              then (case traverse env lc st3 of
                      Inl e \<Rightarrow> Inl e
                    | Inr (_, st') \<Rightarrow>
                        connect env (convert_id env xid_s) ''location-country'' lc st')
              else Inr st3) of
          Inl e \<Rightarrow> Inl e
        | Inr st4 \<Rightarrow>
       (let gp = dict_get loc_info ''geoprecision'' in
       (case (if gp \<noteq> JNull
              then (case traverse env gp st4 of
                      Inl e \<Rightarrow> Inl e
                    | Inr (_, st') \<Rightarrow>
                        connect env (convert_id env xid_s) ''geoprecision'' gp st')
              else Inr st4) of
          Inl e \<Rightarrow> Inl e
        | Inr st5 \<Rightarrow> Inr (None, st5)))))))))))"
| "traverse env subj st =
     (case contains_id subj of
        Inl e \<Rightarrow> Inl e
      | Inr has_id \<Rightarrow>
          (if \<not> has_id then Inr (Some subj, st)
           else (case subscript subj ''id'' of Inl e \<Rightarrow> Inl e | Inr _ \<Rightarrow> Inl TypeError)))"
| "parse_props env name' subj st = parse_items env name' subj [] st"
| "parse_items env name' [] props st = Inr (props, st)"
| "parse_items env name' ((predicate_or_key, obj_or_list) # rest) props st =
     (if predicate_or_key = ''id'' then parse_items env name' rest props st
      else
       (case obj_or_list of
          JList xs \<Rightarrow>
            (case parse_list env name' predicate_or_key xs props st of
               Inl e \<Rightarrow> Inl e
             | Inr (props', st') \<Rightarrow> parse_items env name' rest props' st')
        | JObj d \<Rightarrow>
            (case traverse env (JObj d) st of
               Inl e \<Rightarrow> Inl e
             | Inr (Some prop, st') \<Rightarrow>
                 parse_items env name' rest (AList.update predicate_or_key prop props) st'
             | Inr (None, st') \<Rightarrow>
                 (case connect env name' (convert_predicate_name predicate_or_key) (JObj d) st' of
                    Inl e \<Rightarrow> Inl e
                  | Inr st'' \<Rightarrow> parse_items env name' rest props st''))
        | _ \<Rightarrow> parse_items env name' rest (AList.update predicate_or_key obj_or_list props) st))"
| "parse_list env name' predicate_or_key [] props st = Inr (props, st)"
| "parse_list env name' predicate_or_key (sub_obj # xs) props st =
     (case traverse env sub_obj st of
        Inl e \<Rightarrow> Inl e
      | Inr (Some prop, st') \<Rightarrow>
          parse_list env name' predicate_or_key xs (AList.update predicate_or_key prop props) st'
      | Inr (None, st') \<Rightarrow>
          (case connect env name' (convert_predicate_name predicate_or_key) sub_obj st' of
             Inl e \<Rightarrow> Inl e
           | Inr st'' \<Rightarrow> parse_list env name' predicate_or_key xs props st''))"
  by pat_completeness auto

termination
  apply (relation "measure (\<lambda>x. case x of
      Inl (Inl (env, j, st)) \<Rightarrow> 3 * size j + 2
    | Inl (Inr (env, n, d, st)) \<Rightarrow> 3 * size (JObj d) + 1
    | Inr (Inl (env, n, d, props, st)) \<Rightarrow> 3 * size (JObj d)
    | Inr (Inr (env, n, k, xs, props, st)) \<Rightarrow> 3 * size (JList xs))")
  using size_loc_info apply simp_all
   apply fastforce+
  done

section \<open>The driver\<close>

text \<open>
  What \<^verbatim>\<open>main\<close> does to the outside is the sequence of its calls into
  \<^verbatim>\<open>geodesic.entanglement\<close>.
\<close>

record entanglement_connection =
  subject :: entanglement_object
  predicate :: string
  object' :: entanglement_object

datatype call =
    Add_predicates string "string list"
  | Save entanglement_object
  | Add_connections "entanglement_connection list" bool

text \<open>
  \<^verbatim>\<open>write_connections\<close>: the \<^verbatim>\<open>while\<close> loop with its two indices. The
  parameter \<^verbatim>\<open>batch_size\<close> is overwritten with 100 in the first line.
\<close>

function write_loop :: "entanglement_connection list \<Rightarrow> nat \<Rightarrow> nat \<Rightarrow> nat \<Rightarrow> call list" where
  "write_loop conn_objects batch_size i j =
     (if j \<le> length conn_objects \<and> i \<noteq> j
      then Add_connections (take (j - i) (drop i conn_objects)) True
           # write_loop conn_objects batch_size j (min (j + batch_size) (length conn_objects))
      else [])"
  by pat_completeness auto
termination
  by (relation "measure (\<lambda>(cs, b, i, j). 2 * (length cs - j) + (if i = j then 0 else 1))")
     (auto simp: min_def)

definition write_connections :: "entanglement_connection list \<Rightarrow> nat \<Rightarrow> call list" where
  "write_connections conn_objects batch_size =
     (let batch_size = 100;
          i = 0;
          j = i + batch_size;
          j = min j (length conn_objects)
      in write_loop conn_objects batch_size i j)"

text \<open>
  The list comprehension of lines 313 to 320: a \<^verbatim>\<open>Connection\<close> for every triple
  with \<^verbatim>\<open>sub != obj\<close>; \<^verbatim>\<open>objects[sub]\<close> raises KeyError on a name that was
  never stored.
\<close>

fun conn_objects ::
  "(string \<times> entanglement_object) list \<Rightarrow> connection list \<Rightarrow> error + entanglement_connection list" where
  "conn_objects objs [] = Inr []"
| "conn_objects objs ((sub, pred, obj) # cs) =
     (if sub \<noteq> obj
      then (case map_of objs sub of
              None \<Rightarrow> Inl KeyError
            | Some s \<Rightarrow>
                (case map_of objs obj of
                   None \<Rightarrow> Inl KeyError
                 | Some ob \<Rightarrow>
                     (case conn_objects objs cs of
                        Inl e \<Rightarrow> Inl e
                      | Inr r \<Rightarrow> Inr (\<lparr>subject = s, predicate = pred, object' = ob\<rparr> # r))))
      else conn_objects objs cs)"

text \<open>The six loops \<^verbatim>\<open>for x in ...: traverse(x, objects, connections)\<close>.\<close>

fun traverse_all :: "env \<Rightarrow> json list \<Rightarrow> state \<Rightarrow> error + state" where
  "traverse_all env [] st = Inr st"
| "traverse_all env (x # xs) st =
     (case traverse env x st of
        Inl e \<Rightarrow> Inl e
      | Inr (_, st') \<Rightarrow> traverse_all env xs st')"

text \<open>
  \<^verbatim>\<open>list(set(p for _, p, _ in connections))\<close>. Python leaves the order of a set
  open; \<open>remdups\<close> is one such order.
\<close>

definition unique_predicates :: "connection list \<Rightarrow> string list" where
  "unique_predicates cs = remdups (map (\<lambda>(_, p, _). p) cs)"

text \<open>
  A run of \<^verbatim>\<open>main\<close>, with the calls made so far: still running, ended by
  \<^verbatim>\<open>exit()\<close>, or ended by an exception. \<open>then_do\<close> is the semicolon: the next
  statement runs only if the run is still going.
\<close>

datatype run = Running "call list" | Exited "call list" | Raised error "call list"

fun then_do :: "run \<Rightarrow> (call list \<Rightarrow> run) \<Rightarrow> run" where
  "then_do (Running t) f = f t"
| "then_do r f = r"

text \<open>The JSON-LD collections that the six calls of \<^verbatim>\<open>load\<close> return.\<close>

record loaded =
  equip :: "json list"
  installations :: "json list"
  inventory :: "json list"
  military_groups :: "json list"
  organizations :: "json list"
  units :: "json list"

text \<open>
  \<^verbatim>\<open>main\<close>, statement by statement: the traversal, \<^verbatim>\<open>add_predicates\<close>,
  the \<^verbatim>\<open>exit()\<close> of line 305, the loop of \<^verbatim>\<open>obj.save()\<close>, and
  \<^verbatim>\<open>write_connections\<close> on the filtered triples.
\<close>

definition main :: "env \<Rightarrow> loaded \<Rightarrow> run" where
  "main env data =
     (case traverse_all env
             (equip data @ installations data @ inventory data @
              military_groups data @ organizations data @ units data)
             \<lparr>objects = [], connections = []\<rparr> of
        Inl e \<Rightarrow> Raised e []
      | Inr st \<Rightarrow>
          then_do (then_do (then_do (then_do (Running [])
            (\<lambda>t. Running (t @ [Add_predicates ''JanesOntology'' (unique_predicates (connections st))])))
            (\<lambda>t. Exited t))
            (\<lambda>t. Running (t @ map (\<lambda>(_, obj). Save obj) (objects st))))
            (\<lambda>t. case conn_objects (objects st) (connections st) of
                    Inl e \<Rightarrow> Raised e t
                  | Inr cos \<Rightarrow> Running (t @ write_connections cos 10)))"

section \<open>The location branches\<close>

text \<open>
  Lines 235 to 240 and lines 242 to 247 of \<^verbatim>\<open>traverse\<close> are the same branch,
  once for \<^verbatim>\<open>location_country\<close> and once for \<^verbatim>\<open>geoprecision\<close>: if the
  sub-record is there, it is traversed, and a connection to its identifier is appended.
  \<open>link_location\<close> is that branch as a function of the label and the sub-record.
\<close>

definition link_location :: "env \<Rightarrow> string \<Rightarrow> string \<Rightarrow> json \<Rightarrow> state \<Rightarrow> error + state" where
  "link_location env xid' label x st =
     (if x \<noteq> JNull
      then (case traverse env x st of
              Inl e \<Rightarrow> Inl e
            | Inr (_, st') \<Rightarrow> connect env (convert_id env xid') label x st')
      else Inr st)"

section \<open>Notions of the specification\<close>

text \<open>The letters of the round-trip law.\<close>

definition ascii_letter :: "char \<Rightarrow> bool" where
  "ascii_letter c = (c \<in> set ascii_lowercase \<or> c \<in> set ascii_uppercase)"

text \<open>
  The final path segment of a string is what follows its last slash, the whole string if
  it has none. The same reading gives the last slash-delimited component of a path.
\<close>

definition final_segment :: "string \<Rightarrow> string" where
  "final_segment s = rev (takeWhile (\<lambda>c. c \<noteq> CHR ''/'') (rev s))"

text \<open>
  The container path is what stands before the final segment, without the slashes that
  separate the two; a path of slashes only is kept as it is.
\<close>

definition container_path :: "string \<Rightarrow> string" where
  "container_path s =
     (let before = rev (dropWhile (\<lambda>c. c \<noteq> CHR ''/'') (rev s))
      in if set before \<subseteq> {CHR ''/''} then before
         else rev (dropWhile (\<lambda>c. c = CHR ''/'') (rev before)))"

text \<open>
  The input contract of the spec (its sections 3, 4.5 and 7): an \<^verbatim>\<open>id\<close> is a
  string; a sequence holds records; in a record with an \<^verbatim>\<open>id\<close>, the location
  sub-structure \<^verbatim>\<open>locatedAt\<close> is a record, and what it holds under
  \<^verbatim>\<open>locationCountry\<close> and \<^verbatim>\<open>geoprecision\<close>, if anything, is a record with an
  \<^verbatim>\<open>id\<close> of its own. The contract reaches into every nested value.
\<close>

definition is_record :: "json \<Rightarrow> bool" where
  "is_record x = (case x of JObj d \<Rightarrow> True | _ \<Rightarrow> False)"

definition reference :: "json \<Rightarrow> bool" where
  "reference x = (case x of JObj d \<Rightarrow> (case map_of d ''id'' of Some (JStr i) \<Rightarrow> True | _ \<Rightarrow> False)
                  | _ \<Rightarrow> False)"

definition location_ok :: "dict \<Rightarrow> bool" where
  "location_ok d =
     (case map_of d ''locatedAt'' of
        None \<Rightarrow> True
      | Some (JObj la) \<Rightarrow>
          (dict_get la ''locationCountry'' = JNull \<or> reference (dict_get la ''locationCountry''))
          \<and> (dict_get la ''geoprecision'' = JNull \<or> reference (dict_get la ''geoprecision''))
      | Some _ \<Rightarrow> False)"

fun well_formed :: "json \<Rightarrow> bool"
  and well_formed_items :: "dict \<Rightarrow> bool"
  and well_formed_elements :: "json list \<Rightarrow> bool" where
  "well_formed (JObj d) =
     ((case map_of d ''id'' of
         None \<Rightarrow> True
       | Some (JStr i) \<Rightarrow> location_ok d
       | Some _ \<Rightarrow> False)
      \<and> well_formed_items d)"
| "well_formed (JList xs) = well_formed_elements xs"
| "well_formed _ = True"
| "well_formed_items [] = True"
| "well_formed_items ((k, v) # d) = (well_formed v \<and> well_formed_items d)"
| "well_formed_elements [] = True"
| "well_formed_elements (x # xs) = (is_record x \<and> well_formed x \<and> well_formed_elements xs)"

text \<open>
  The records that a call of \<^verbatim>\<open>traverse\<close> can store, by their \<^verbatim>\<open>id\<close>: the
  record itself if it has a string under \<^verbatim>\<open>id\<close>, then what
  \<^verbatim>\<open>parse_props\<close> traverses (every dict and every element of a list among the
  values, the value of \<^verbatim>\<open>id\<close> apart) and what the two location branches traverse
  (the values of \<^verbatim>\<open>locationCountry\<close> and \<^verbatim>\<open>geoprecision\<close> in the dict under
  \<^verbatim>\<open>locatedAt\<close>). A record without \<^verbatim>\<open>id\<close> is handed back and nothing below
  it is stored. \<open>location_stored_ids\<close> are the records that the two location branches
  of a record store, after the record itself was stored (lines 235 to 247).
\<close>

fun stored_ids :: "json \<Rightarrow> string list"
  and stored_ids_items :: "dict \<Rightarrow> string list"
  and stored_ids_elements :: "json list \<Rightarrow> string list"
  and stored_ids_located :: "json \<Rightarrow> string list"
  and stored_ids_branches :: "dict \<Rightarrow> string list" where
  "stored_ids (JObj d) =
     (case map_of d ''id'' of
        Some (JStr i) \<Rightarrow> i # stored_ids_items d
      | _ \<Rightarrow> [])"
| "stored_ids _ = []"
| "stored_ids_items [] = []"
| "stored_ids_items ((k, v) # d) =
     (if k = ''id'' then []
      else (case v of JList xs \<Rightarrow> stored_ids_elements xs | _ \<Rightarrow> stored_ids v))
     @ (if k = ''locatedAt'' then stored_ids_located v else [])
     @ stored_ids_items d"
| "stored_ids_elements [] = []"
| "stored_ids_elements (x # xs) = stored_ids x @ stored_ids_elements xs"
| "stored_ids_located (JObj la) = stored_ids_branches la"
| "stored_ids_located _ = []"
| "stored_ids_branches [] = []"
| "stored_ids_branches ((k, v) # la) =
     (if k = ''locationCountry'' \<or> k = ''geoprecision'' then stored_ids v else [])
     @ stored_ids_branches la"

definition location_stored_ids :: "dict \<Rightarrow> string list" where
  "location_stored_ids subj =
     (case map_of subj ''locatedAt'' of
        Some (JObj la) \<Rightarrow>
          stored_ids (dict_get la ''locationCountry'') @ stored_ids (dict_get la ''geoprecision'')
      | _ \<Rightarrow> [])"

text \<open>A record that refers to itself and to one other record.\<close>

definition self_loop_record :: json where
  "self_loop_record =
     JObj [(''id'', JStr ''e/1''),
           (''partOf'', JObj [(''id'', JStr ''o/9'')]),
           (''sameAs'', JObj [(''id'', JStr ''e/1'')])]"

text \<open>The calls that a run has made.\<close>

fun calls_of :: "run \<Rightarrow> call list" where
  "calls_of (Running t) = t"
| "calls_of (Exited t) = t"
| "calls_of (Raised e t) = t"

text \<open>The record of the spec's example of edge generation.\<close>

definition example_record :: json where
  "example_record =
     JObj [(''id'', JStr ''https://x/equipment/Equipment/123''),
           (''type'', JStr ''https://x/ontologies/equipment/Equipment''),
           (''label'', JStr ''Tank X''),
           (''partOf'', JObj [(''id'', JStr ''https://x/organization/Organization/9''),
                             (''label'', JStr ''Org'')])]"

section \<open>Predicate names: what holds\<close>

lemma lowercase_facts:
  "c \<in> set ascii_lowercase \<Longrightarrow> c \<noteq> upper c \<and> c \<noteq> CHR ''-''"
  unfolding upper_def ascii_lowercase_def ascii_uppercase_def by auto

lemma uppercase_facts:
  "c \<in> set ascii_uppercase \<Longrightarrow>
     c = upper c \<and> upper (lower c) = c \<and> lower c \<noteq> CHR ''-'' \<and> lower c \<noteq> c"
  unfolding upper_def lower_def ascii_lowercase_def ascii_uppercase_def by auto

text \<open>
  Past the first character the two loops undo each other on letters: an uppercase letter
  becomes a hyphen and its lowercase form, and the hyphen makes the other loop raise the
  letter again.
\<close>

lemma unconvert_convert_loop:
  "list_all ascii_letter s \<Longrightarrow> 0 < i \<Longrightarrow> unconvert_loop False (convert_loop i s) = s"
proof (induction s arbitrary: i)
  case Nil
  then show ?case by simp
next
  case (Cons c s)
  then have IH: "unconvert_loop False (convert_loop (Suc i) s) = s" by simp
  from Cons.prems have "c \<in> set ascii_lowercase \<or> c \<in> set ascii_uppercase"
    by (simp add: ascii_letter_def)
  then show ?case
  proof
    assume "c \<in> set ascii_lowercase"
    with IH lowercase_facts [of c] show ?thesis by simp
  next
    assume "c \<in> set ascii_uppercase"
    with IH uppercase_facts [of c] Cons.prems(2) show ?thesis by simp
  qed
qed

text \<open>
  C4, as the spec states it, fails: a leading uppercase letter is lowered without a
  hyphen (the guard \<^verbatim>\<open>if i > 0\<close>), so nothing tells the way back that it was
  uppercase. \<^verbatim>\<open>EquipmentFamily\<close> comes back as \<^verbatim>\<open>equipmentFamily\<close>.
\<close>

theorem predicate_name_round_trip_counterexample:
  "list_all ascii_letter ''EquipmentFamily''
   \<and> unconvert_predicate_name (convert_predicate_name ''EquipmentFamily'') = ''equipmentFamily''
   \<and> unconvert_predicate_name (convert_predicate_name ''EquipmentFamily'') \<noteq> ''EquipmentFamily''"
  by (simp add: ascii_letter_def unconvert_predicate_name_def convert_predicate_name_def
      upper_def lower_def ascii_lowercase_def ascii_uppercase_def)

text \<open>
  C4 (amended): for every string \<open>s\<close> of ASCII letters only that does not begin with an
  uppercase letter, \<^verbatim>\<open>unconvert_predicate_name(convert_predicate_name(s)) == s\<close>.
\<close>

theorem predicate_name_round_trip:
  assumes "list_all ascii_letter s" and "s = [] \<or> hd s \<notin> set ascii_uppercase"
  shows "unconvert_predicate_name (convert_predicate_name s) = s"
proof (cases s)
  case Nil
  then show ?thesis by (simp add: unconvert_predicate_name_def convert_predicate_name_def)
next
  case (Cons c r)
  with assms have c: "c \<in> set ascii_lowercase" and r: "list_all ascii_letter r"
    by (auto simp: ascii_letter_def)
  from r have "unconvert_loop False (convert_loop (Suc 0) r) = r"
    by (rule unconvert_convert_loop) simp
  with c lowercase_facts [of c] Cons show ?thesis
    by (simp add: unconvert_predicate_name_def convert_predicate_name_def)
qed

theorem predicate_name_round_trip_witness:
  "list_all ascii_letter ''locatedAt'' \<and> hd ''locatedAt'' \<notin> set ascii_uppercase
   \<and> convert_predicate_name ''locatedAt'' = ''located-at''
   \<and> unconvert_predicate_name ''located-at'' = ''locatedAt''"
proof -
  have a: "list_all ascii_letter ''locatedAt''"
    by (simp add: ascii_letter_def ascii_lowercase_def ascii_uppercase_def)
  have b: "hd ''locatedAt'' \<notin> set ascii_uppercase"
    by (simp add: ascii_uppercase_def)
  have c: "convert_predicate_name ''locatedAt'' = ''located-at''"
    by (simp add: convert_predicate_name_def upper_def lower_def ascii_lowercase_def ascii_uppercase_def)
  from predicate_name_round_trip [of "''locatedAt''"] a b c show ?thesis by simp
qed

text \<open>
  C5: the two examples of the spec come out as it says. The test of the loop is
  \<^verbatim>\<open>char == char.upper()\<close>, which holds for an uppercase letter and also for every
  character without case: a digit after the first position gets a hyphen as well, where
  the spec (and the comment of the source, "if uppercase") lets it pass unchanged.
  \<^verbatim>\<open>alpha2Code\<close> becomes \<^verbatim>\<open>alpha-2-code\<close>, not \<^verbatim>\<open>alpha2-code\<close>.
\<close>

theorem convert_predicate_name_examples:
  "convert_predicate_name ''locatedAt'' = ''located-at''
   \<and> convert_predicate_name ''EquipmentFamily'' = ''equipment-family''
   \<and> convert_predicate_name ''alpha2Code'' = ''alpha-2-code''"
  by (simp add: convert_predicate_name_def upper_def lower_def ascii_lowercase_def ascii_uppercase_def)

section \<open>Identifiers: what holds\<close>

lemma no_slash_takeWhile: "c \<notin> set p \<Longrightarrow> takeWhile (\<lambda>x. x \<noteq> c) (rev p) = rev p"
  by (rule takeWhile_eq_all_conv [THEN iffD2]) auto

lemma no_slash_dropWhile: "c \<notin> set p \<Longrightarrow> dropWhile (\<lambda>x. x \<noteq> c) (rev p) = []"
  by (rule dropWhile_eq_Nil_conv [THEN iffD2]) auto

lemma final_segment_Cons:
  "final_segment (x # s) =
     (if CHR ''/'' \<in> set s then final_segment s else if x = CHR ''/'' then s else x # s)"
  by (auto simp: final_segment_def takeWhile_append takeWhile_eq_all_conv [THEN iffD2])

lemma final_segment_append:
  "CHR ''/'' \<notin> set u \<Longrightarrow> final_segment (h @ ''/'' @ u) = u"
  by (simp add: final_segment_def takeWhile_append takeWhile_eq_all_conv [THEN iffD2])

lemma container_path_append:
  assumes "CHR ''/'' \<notin> set u" and "h \<noteq> []" and "last h \<noteq> CHR ''/''"
  shows "container_path (h @ ''/'' @ u) = h"
proof -
  have "dropWhile (\<lambda>c. c \<noteq> CHR ''/'') (rev u @ CHR ''/'' # rev h) = CHR ''/'' # rev h"
    using assms(1) by (simp add: dropWhile_append)
  moreover have "hd (rev h) \<noteq> CHR ''/''" using assms(2,3) by (simp add: hd_rev)
  then have "dropWhile (\<lambda>c. c = CHR ''/'') (rev h) = rev h"
    using assms(2) by (cases "rev h") auto
  moreover have "last h \<in> set h" using assms(2) by simp
  ultimately show ?thesis
    using assms(3) by (auto simp: container_path_def Let_def)
qed

text \<open>\<^verbatim>\<open>split\<close> and its last element.\<close>

lemma str_split_not_Nil: "str_split s sep \<noteq> []"
  by (induction s) (auto split: list.splits)

lemma str_split_no_sep: "sep \<notin> set s \<Longrightarrow> str_split s sep = [s]"
  by (induction s) auto

lemma str_split_two: "sep \<in> set s \<Longrightarrow> \<exists>w v ws. str_split s sep = w # v # ws"
proof (induction s)
  case Nil
  then show ?case by simp
next
  case (Cons x s)
  obtain w ws where w: "str_split s sep = w # ws"
    using str_split_not_Nil [of s sep] by (cases "str_split s sep") auto
  show ?case
  proof (cases "x = sep")
    case True
    with w show ?thesis by simp
  next
    case False
    with Cons.prems have "sep \<in> set s" by simp
    with Cons.IH obtain w' v' ws' where "str_split s sep = w' # v' # ws'" by blast
    with False show ?thesis by simp
  qed
qed

lemma last_str_split: "last (str_split s CHR ''/'') = final_segment s"
proof (induction s)
  case Nil
  then show ?case by (simp add: final_segment_def)
next
  case (Cons x s)
  show ?case
  proof (cases "CHR ''/'' \<in> set s")
    case True
    then obtain w v ws where "str_split s CHR ''/'' = w # v # ws"
      using str_split_two by blast
    with Cons True show ?thesis
      by (simp add: final_segment_Cons)
  next
    case False
    then show ?thesis
      by (simp add: final_segment_Cons str_split_no_sep)
  qed
qed

text \<open>\<^verbatim>\<open>os.path.split\<close>: the index after the last slash cuts off the final segment.\<close>

lemma length_final_segment: "length (final_segment p) \<le> length p"
  using length_takeWhile_le [of "\<lambda>c. c \<noteq> CHR ''/''" "rev p"] by (simp add: final_segment_def)

lemma split_index:
  "nat (rfind p CHR ''/'' + 1) = length p - length (final_segment p)"
proof (cases "CHR ''/'' \<in> set p")
  case True
  with length_final_segment [of p] show ?thesis by (simp add: rfind_def final_segment_def)
next
  case False
  then show ?thesis by (simp add: rfind_def final_segment_def no_slash_takeWhile)
qed

lemma take_drop_final:
  "take (length p - length (final_segment p)) p = rev (dropWhile (\<lambda>c. c \<noteq> CHR ''/'') (rev p))"
  "drop (length p - length (final_segment p)) p = final_segment p"
proof -
  let ?P = "\<lambda>c. c \<noteq> CHR ''/''"
  let ?d = "rev (dropWhile ?P (rev p))"
  have "?d @ final_segment p = rev (takeWhile ?P (rev p) @ dropWhile ?P (rev p))"
    by (simp only: final_segment_def rev_append)
  also have "\<dots> = rev (rev p)" by (simp only: takeWhile_dropWhile_id)
  finally have p: "p = ?d @ final_segment p" by simp
  then have "length p = length ?d + length (final_segment p)"
    by (metis length_append)
  then have len: "length p - length (final_segment p) = length ?d" by simp
  have "take (length ?d) (?d @ final_segment p) = ?d" by simp
  with p len show "take (length p - length (final_segment p)) p = ?d" by simp
  have "drop (length ?d) (?d @ final_segment p) = final_segment p" by simp
  with p len show "drop (length p - length (final_segment p)) p = final_segment p" by simp
qed

lemma all_slashes: "h = replicate (length h) c \<longleftrightarrow> set h \<subseteq> {c}"
  by (induction h) auto

lemma os_path_split_eq: "os_path_split p = (container_path p, final_segment p)"
proof -
  let ?b = "rev (dropWhile (\<lambda>c. c \<noteq> CHR ''/'') (rev p))"
  have "os_path_split p =
     (if ?b \<noteq> [] \<and> ?b \<noteq> replicate (length ?b) CHR ''/'' then rstrip ?b CHR ''/'' else ?b,
      final_segment p)"
    unfolding os_path_split_def Let_def split_index take_drop_final ..
  also have "\<dots> = (container_path p, final_segment p)"
  proof (cases "CHR ''/'' \<in> set p")
    case True
    then have "?b \<noteq> []" by (auto simp: dropWhile_eq_Nil_conv)
    then show ?thesis
      unfolding container_path_def Let_def rstrip_def all_slashes [of ?b] by simp
  next
    case False
    then show ?thesis
      by (simp add: container_path_def no_slash_dropWhile)
  qed
  finally show ?thesis .
qed

lemma convert_id_segments:
  "convert_id env rawId =
     ''janes-'' @ final_segment (container_path rawId) @ ''-'' @ str_lower (final_segment rawId)
       @ ''-'' @ take 8 (sha1_hexdigest env rawId)"
  by (simp add: convert_id_def os_path_split_eq last_str_split)

text \<open>
  C3: \<^verbatim>\<open>convert_id\<close> reads nothing but its argument, so equal inputs give equal
  results. For every \<open>rawId\<close> (the empty one too) the result is \<^verbatim>\<open>janes-\<close>, the last
  slash-delimited component of the container path, a hyphen, the final path segment in
  lowercase, a hyphen, and the first 8 characters of the hexadecimal SHA-1 digest of the
  whole \<open>rawId\<close>. When \<open>rawId\<close> has no slash, the final segment is \<open>rawId\<close> itself
  and the container path and the prefix are empty.
\<close>

theorem convert_id_format:
  "convert_id env rawId =
     ''janes-'' @ final_segment (container_path rawId) @ ''-'' @ str_lower (final_segment rawId)
       @ ''-'' @ take 8 (sha1_hexdigest env rawId)
   \<and> (CHR ''/'' \<notin> set rawId \<longrightarrow>
        final_segment rawId = rawId \<and> container_path rawId = []
        \<and> final_segment (container_path rawId) = [])"
  by (simp add: convert_id_segments final_segment_def container_path_def
      no_slash_takeWhile no_slash_dropWhile)

lemma segments_equipment:
  "final_segment ''https://x/equipment/Equipment/123'' = ''123''"
  "container_path ''https://x/equipment/Equipment/123'' = ''https://x/equipment/Equipment''"
  "final_segment ''https://x/equipment/Equipment'' = ''Equipment''"
  using final_segment_append [of "''123''" "''https://x/equipment/Equipment''"]
    container_path_append [of "''123''" "''https://x/equipment/Equipment''"]
    final_segment_append [of "''Equipment''" "''https://x/equipment''"]
  by simp_all

lemma segments_organization:
  "final_segment ''https://x/organization/Organization/9'' = ''9''"
  "container_path ''https://x/organization/Organization/9'' = ''https://x/organization/Organization''"
  "final_segment ''https://x/organization/Organization'' = ''Organization''"
  using final_segment_append [of "''9''" "''https://x/organization/Organization''"]
    container_path_append [of "''9''" "''https://x/organization/Organization''"]
    final_segment_append [of "''Organization''" "''https://x/organization''"]
  by simp_all

lemma str_lower_examples:
  "str_lower ''123'' = ''123''" "str_lower ''9'' = ''9''" "str_lower ''xyz'' = ''xyz''"
  by (simp_all add: str_lower_def lower_def ascii_lowercase_def ascii_uppercase_def)

theorem convert_id_format_witness:
  "\<forall>env. convert_id env ''https://x/equipment/Equipment/123'' =
      ''janes-Equipment-123-'' @ take 8 (sha1_hexdigest env ''https://x/equipment/Equipment/123'')
    \<and> convert_id env ''xyz'' = ''janes--xyz-'' @ take 8 (sha1_hexdigest env ''xyz'')"
proof
  fix env
  show "convert_id env ''https://x/equipment/Equipment/123'' =
      ''janes-Equipment-123-'' @ take 8 (sha1_hexdigest env ''https://x/equipment/Equipment/123'')
    \<and> convert_id env ''xyz'' = ''janes--xyz-'' @ take 8 (sha1_hexdigest env ''xyz'')"
    using convert_id_format [of env "''https://x/equipment/Equipment/123''"]
      convert_id_format [of env "''xyz''"] segments_equipment str_lower_examples
    by (simp add: final_segment_def)
qed

section \<open>Location: what holds\<close>



section \<open>The traversal: what holds\<close>

lemma convert_id_equipment:
  "convert_id env ''https://x/equipment/Equipment/123'' =
     ''janes-Equipment-123-'' @ take 8 (sha1_hexdigest env ''https://x/equipment/Equipment/123'')"
  by (simp add: convert_id_segments segments_equipment str_lower_examples)

lemma convert_id_organization:
  "convert_id env ''https://x/organization/Organization/9'' =
     ''janes-Organization-9-'' @ take 8 (sha1_hexdigest env ''https://x/organization/Organization/9'')"
  by (simp add: convert_id_segments segments_organization str_lower_examples)

lemma convert_type_equipment:
  "convert_type ''https://x/ontologies/equipment/Equipment'' = ''equipment''"
proof -
  have a: "final_segment ''https://x/ontologies/equipment/Equipment'' = ''Equipment''"
    using final_segment_append [of "''Equipment''" "''https://x/ontologies/equipment''"] by simp
  show ?thesis
    by (simp add: convert_type_def os_path_split_eq a convert_predicate_name_def str_lower_def
        upper_def lower_def ascii_lowercase_def ascii_uppercase_def)
qed

lemma convert_id_short:
  "convert_id env ''e/1'' = ''janes-e-1-'' @ take 8 (sha1_hexdigest env ''e/1'')"
  "convert_id env ''o/9'' = ''janes-o-9-'' @ take 8 (sha1_hexdigest env ''o/9'')"
  using final_segment_append [of "''1''" "''e''"] container_path_append [of "''1''" "''e''"]
    final_segment_append [of "''9''" "''o''"] container_path_append [of "''9''" "''o''"]
  by (simp_all add: convert_id_segments final_segment_def [of "''e''"] final_segment_def [of "''o''"]
      str_lower_def lower_def ascii_lowercase_def ascii_uppercase_def)

lemma traverse_example_record:
  "traverse env example_record \<lparr>objects = [], connections = []\<rparr> =
     Inr (None,
       \<lparr>objects =
          [(convert_id env ''https://x/organization/Organization/9'',
            \<lparr>alias = JStr ''Org'', domain = ''military'', object_class = ''Entity'',
             name = convert_id env ''https://x/organization/Organization/9'',
             xid = ''https://x/organization/Organization/9'', type = ''*'',
             item = [(''label'', JStr ''Org'')], project = project_uid env, geometry = None\<rparr>),
           (convert_id env ''https://x/equipment/Equipment/123'',
            \<lparr>alias = JStr ''Tank X'', domain = ''military'', object_class = ''Entity'',
             name = convert_id env ''https://x/equipment/Equipment/123'',
             xid = ''https://x/equipment/Equipment/123'', type = ''equipment'',
             item = [(''type'', JStr ''https://x/ontologies/equipment/Equipment''),
                     (''label'', JStr ''Tank X'')],
             project = project_uid env, geometry = None\<rparr>)],
        connections =
          [(convert_id env ''https://x/equipment/Equipment/123'', ''part-of'',
            convert_id env ''https://x/organization/Organization/9'')]\<rparr>)
   \<and> convert_id env ''https://x/equipment/Equipment/123''
       \<noteq> convert_id env ''https://x/organization/Organization/9''"
proof -
  have pred: "convert_predicate_name ''partOf'' = ''part-of''"
    by (simp add: convert_predicate_name_def upper_def lower_def ascii_lowercase_def ascii_uppercase_def)
  have neq: "convert_id env ''https://x/equipment/Equipment/123''
       \<noteq> convert_id env ''https://x/organization/Organization/9''"
    by (simp add: convert_id_equipment convert_id_organization)
  have org: "traverse env (JObj [(''id'', JStr ''https://x/organization/Organization/9''),
                             (''label'', JStr ''Org'')]) \<lparr>objects = [], connections = []\<rparr> =
     Inr (None, \<lparr>objects =
          [(convert_id env ''https://x/organization/Organization/9'',
            \<lparr>alias = JStr ''Org'', domain = ''military'', object_class = ''Entity'',
             name = convert_id env ''https://x/organization/Organization/9'',
             xid = ''https://x/organization/Organization/9'', type = ''*'',
             item = [(''label'', JStr ''Org'')], project = project_uid env, geometry = None\<rparr>)],
          connections = []\<rparr>)"
    by (simp add: getitem_def as_str_def type_info_def extract_location_info_def dict_get_def
        object_class_of_def type_class_map_def new_object_def store_object_def Let_def)
  show ?thesis
    unfolding example_record_def
    using neq
    by (simp add: org pred getitem_def as_str_def type_info_def extract_location_info_def dict_get_def
        object_class_of_def type_class_map_def new_object_def store_object_def Let_def
        convert_type_equipment connect_def subscript_def append_connection_def)
qed

text \<open>
  C2: flattening the example record with empty accumulators returns \<^verbatim>\<open>None\<close> and
  leaves exactly two objects, the organization (stored first, while the properties of
  the equipment are parsed) and the equipment, under two different names, and exactly
  one connection, from the equipment to the organization with the predicate
  \<^verbatim>\<open>part-of\<close>.
\<close>

theorem flatten_example:
  "traverse env example_record \<lparr>objects = [], connections = []\<rparr> =
     Inr (None,
       \<lparr>objects =
          [(convert_id env ''https://x/organization/Organization/9'',
            \<lparr>alias = JStr ''Org'', domain = ''military'', object_class = ''Entity'',
             name = convert_id env ''https://x/organization/Organization/9'',
             xid = ''https://x/organization/Organization/9'', type = ''*'',
             item = [(''label'', JStr ''Org'')], project = project_uid env, geometry = None\<rparr>),
           (convert_id env ''https://x/equipment/Equipment/123'',
            \<lparr>alias = JStr ''Tank X'', domain = ''military'', object_class = ''Entity'',
             name = convert_id env ''https://x/equipment/Equipment/123'',
             xid = ''https://x/equipment/Equipment/123'', type = ''equipment'',
             item = [(''type'', JStr ''https://x/ontologies/equipment/Equipment''),
                     (''label'', JStr ''Tank X'')],
             project = project_uid env, geometry = None\<rparr>)],
        connections =
          [(convert_id env ''https://x/equipment/Equipment/123'', ''part-of'',
            convert_id env ''https://x/organization/Organization/9'')]\<rparr>)
   \<and> convert_id env ''https://x/equipment/Equipment/123''
       \<noteq> convert_id env ''https://x/organization/Organization/9''"
  by (rule traverse_example_record)

text \<open>\<^verbatim>\<open>traverse\<close> on a record, by what stands under \<^verbatim>\<open>id\<close>.\<close>

lemma traverse_no_id:
  "map_of subj ''id'' = None \<Longrightarrow> traverse env (JObj subj) st = Inr (Some (JObj subj), st)"
  by simp

lemma traverse_bad_id:
  "map_of subj ''id'' = Some v \<Longrightarrow> \<forall>i. v \<noteq> JStr i \<Longrightarrow> traverse env (JObj subj) st = Inl TypeError"
  by (cases v) (simp_all add: getitem_def as_str_def)

lemma traverse_record:
  assumes "map_of subj ''id'' = Some (JStr i)"
  shows "traverse env (JObj subj) st =
    (case extract_location_info env subj of
       Inl e \<Rightarrow> Inl e
     | Inr loc_info \<Rightarrow>
        (case parse_props env (convert_id env i) subj st of
           Inl e \<Rightarrow> Inl e
         | Inr (props, st1) \<Rightarrow>
            (case link_location env i ''location-country'' (dict_get loc_info ''location_country'')
                    (store_object env subj (convert_id env i) i (fst (type_info subj))
                       (snd (type_info subj)) loc_info props st1) of
               Inl e \<Rightarrow> Inl e
             | Inr st4 \<Rightarrow>
                (case link_location env i ''geoprecision'' (dict_get loc_info ''geoprecision'') st4 of
                   Inl e \<Rightarrow> Inl e
                 | Inr st5 \<Rightarrow> Inr (None, st5)))))"
  using assms
  by (simp add: getitem_def as_str_def link_location_def Let_def split: sum.splits prod.splits)

lemma traverse_id_cases:
  assumes "map_of subj ''id'' \<noteq> None"
  shows "(\<exists>e. traverse env (JObj subj) st = Inl e) \<or> (\<exists>st'. traverse env (JObj subj) st = Inr (None, st'))"
proof -
  from assms obtain v where v: "map_of subj ''id'' = Some v" by auto
  show ?thesis
  proof (cases "\<exists>i. v = JStr i")
    case True
    then obtain i where "v = JStr i" ..
    with v have "map_of subj ''id'' = Some (JStr i)" by simp
    then show ?thesis
      by (simp only: traverse_record) (auto split: sum.splits prod.splits)
  next
    case False
    with v traverse_bad_id [of subj v env st] show ?thesis by blast
  qed
qed

text \<open>What the store leaves under the name, and what a returning call went through.\<close>

lemma store_object_lookup:
  "map_of (objects (store_object env subj n x t jt loc_info props st)) n =
     Some ((new_object env subj n x (object_class_of t) jt props)
             \<lparr>geometry := (if dict_get loc_info ''geometry'' \<noteq> JNull
                           then Some (dict_get loc_info ''geometry'') else None)\<rparr>)"
  by (simp add: store_object_def Let_def map_of_map_entry update_conv' new_object_def)

lemma type_info_missing: "map_of subj ''type'' = None \<Longrightarrow> type_info subj = ([], ''*'')"
  by (simp add: type_info_def getitem_def)

lemma object_class_of_empty: "object_class_of [] = ''Entity''"
  by (simp add: object_class_of_def type_class_map_def)

lemma link_location_absent: "link_location env i label JNull st = Inr st"
  by (simp add: link_location_def)

lemma loc_info_absent:
  "map_of subj ''locatedAt'' = None \<Longrightarrow> extract_location_info env subj = Inr loc_info \<Longrightarrow>
     dict_get loc_info k = JNull"
  by (auto simp: extract_location_info_def dict_get_def)

lemma traverse_returns:
  assumes i: "map_of subj ''id'' = Some (JStr i)"
    and tr: "traverse env (JObj subj) st = Inr (r, st')"
  shows "\<exists>loc_info props st1 st4.
           extract_location_info env subj = Inr loc_info
         \<and> parse_props env (convert_id env i) subj st = Inr (props, st1)
         \<and> link_location env i ''location-country'' (dict_get loc_info ''location_country'')
              (store_object env subj (convert_id env i) i (fst (type_info subj))
                 (snd (type_info subj)) loc_info props st1) = Inr st4
         \<and> link_location env i ''geoprecision'' (dict_get loc_info ''geoprecision'') st4 = Inr st'
         \<and> r = None"
proof -
  note eq = tr [unfolded traverse_record [OF i]]
  obtain loc_info where li: "extract_location_info env subj = Inr loc_info"
    using eq by (cases "extract_location_info env subj") simp_all
  note eq = eq [unfolded li sum.case]
  obtain props st1 where pp: "parse_props env (convert_id env i) subj st = Inr (props, st1)"
    using eq by (cases "parse_props env (convert_id env i) subj st") auto
  note eq = eq [unfolded pp sum.case prod.case]
  let ?st2 = "store_object env subj (convert_id env i) i (fst (type_info subj))
                 (snd (type_info subj)) loc_info props st1"
  obtain st4 where l1: "link_location env i ''location-country'' (dict_get loc_info ''location_country'') ?st2 = Inr st4"
    using eq by (cases "link_location env i ''location-country'' (dict_get loc_info ''location_country'') ?st2") simp_all
  note eq = eq [unfolded l1 sum.case]
  have "link_location env i ''geoprecision'' (dict_get loc_info ''geoprecision'') st4 = Inr st' \<and> r = None"
    using eq by (cases "link_location env i ''geoprecision'' (dict_get loc_info ''geoprecision'') st4") simp_all
  with li pp l1 show ?thesis by blast
qed

lemma traverse_returns_str_id:
  assumes "map_of subj ''id'' \<noteq> None" and "traverse env (JObj subj) st = Inr (r, st')"
  shows "\<exists>i. map_of subj ''id'' = Some (JStr i)"
proof -
  from assms(1) obtain v where v: "map_of subj ''id'' = Some v" by auto
  show ?thesis
  proof (rule ccontr)
    assume "\<not> (\<exists>i. map_of subj ''id'' = Some (JStr i))"
    with v have "\<forall>i. v \<noteq> JStr i" by simp
    with v have "traverse env (JObj subj) st = Inl TypeError" by (rule traverse_bad_id)
    with assms(2) show False by simp
  qed
qed

text \<open>The lookup \<^verbatim>\<open>x['id']\<close> after a traversal, and the location branch around it.\<close>

lemma connect_id:
  "map_of d ''id'' = Some (JStr j) \<Longrightarrow>
     connect env n p (JObj d) st = Inr (append_connection (n, p, convert_id env j) st)"
  by (simp add: connect_def subscript_def getitem_def as_str_def)

lemma connect_no_id: "map_of d ''id'' = None \<Longrightarrow> connect env n p (JObj d) st = Inl KeyError"
  by (simp add: connect_def subscript_def getitem_def)

lemma connect_not_dict: "\<forall>d. x \<noteq> JObj d \<Longrightarrow> connect env n p x st = Inl TypeError"
  by (cases x) (simp_all add: connect_def subscript_def)

lemma link_location_id:
  assumes "map_of d ''id'' \<noteq> None" and "traverse env (JObj d) s = Inr (r, st')"
  shows "\<exists>j. map_of d ''id'' = Some (JStr j)
           \<and> link_location env i label (JObj d) s =
               Inr (append_connection (convert_id env i, label, convert_id env j) st')"
proof -
  from traverse_returns_str_id [OF assms] obtain j where j: "map_of d ''id'' = Some (JStr j)" ..
  have "link_location env i label (JObj d) s = connect env (convert_id env i) label (JObj d) st'"
    unfolding link_location_def using assms(2) by simp
  with j show ?thesis by (simp add: connect_id)
qed

lemma link_location_no_id:
  "map_of d ''id'' = None \<Longrightarrow> link_location env i label (JObj d) s = Inl KeyError"
  unfolding link_location_def by (simp add: connect_no_id)

lemma link_location_not_dict:
  assumes "x \<noteq> JNull" and "\<forall>d. x \<noteq> JObj d"
  shows "\<exists>e. link_location env i label x s = Inl e"
proof (cases "traverse env x s")
  case (Inl e)
  with assms(1) show ?thesis by (simp add: link_location_def)
next
  case (Inr p)
  with assms show ?thesis
    by (cases p) (simp add: link_location_def connect_not_dict)
qed

lemma loc_info_entries:
  assumes "map_of subj ''locatedAt'' = Some (JObj la)"
  shows "\<exists>loc_info. extract_location_info env subj = Inr loc_info
           \<and> dict_get loc_info ''location_country'' = dict_get la ''locationCountry''
           \<and> dict_get loc_info ''geoprecision'' = dict_get la ''geoprecision''"
  using assms by (simp add: extract_location_info_def Let_def dict_get_def [of "_ # _"] dict_get_def [of "[]"])

lemma traverse_faults_without_sub_id:
  assumes id: "map_of subj ''id'' \<noteq> None"
    and la: "map_of subj ''locatedAt'' = Some (JObj la)"
    and sub: "map_of la ''locationCountry'' = Some (JObj d) \<or> map_of la ''geoprecision'' = Some (JObj d)"
    and d: "map_of d ''id'' = None"
  shows "\<exists>e. traverse env (JObj subj) st = Inl e"
proof (cases "traverse env (JObj subj) st")
  case (Inl e)
  then show ?thesis by blast
next
  case (Inr p)
  obtain r st' where tr: "traverse env (JObj subj) st = Inr (r, st')"
    using Inr by (cases p) simp
  from traverse_returns_str_id [OF id tr] obtain i where i: "map_of subj ''id'' = Some (JStr i)" ..
  from traverse_returns [OF i tr] obtain loc_info props st1 st4 where
    li: "extract_location_info env subj = Inr loc_info" and
    l1: "link_location env i ''location-country'' (dict_get loc_info ''location_country'')
              (store_object env subj (convert_id env i) i (fst (type_info subj))
                 (snd (type_info subj)) loc_info props st1) = Inr st4" and
    l2: "link_location env i ''geoprecision'' (dict_get loc_info ''geoprecision'') st4 = Inr st'"
    by blast
  from loc_info_entries [OF la, of env] li have
    e: "dict_get loc_info ''location_country'' = dict_get la ''locationCountry''"
       "dict_get loc_info ''geoprecision'' = dict_get la ''geoprecision''"
    by simp_all
  from sub show ?thesis
  proof
    assume "map_of la ''locationCountry'' = Some (JObj d)"
    then have "dict_get la ''locationCountry'' = JObj d" by (simp add: dict_get_def)
    with l1 e link_location_no_id [OF d] show ?thesis by simp
  next
    assume "map_of la ''geoprecision'' = Some (JObj d)"
    then have "dict_get la ''geoprecision'' = JObj d" by (simp add: dict_get_def)
    with l2 e link_location_no_id [OF d] show ?thesis by simp
  qed
qed

text \<open>
  On input that keeps the contract nothing raises: by induction on the size of the record,
  with the two loops of \<^verbatim>\<open>parse_props\<close> by induction on their lists.
\<close>

lemma well_formed_items_value: "well_formed_items d \<Longrightarrow> (k, v) \<in> set d \<Longrightarrow> well_formed v"
  by (induction d) auto

lemma well_formed_elements_member:
  "well_formed_elements xs \<Longrightarrow> x \<in> set xs \<Longrightarrow> is_record x \<and> well_formed x"
  by (induction xs) auto

lemma size_member: "(k, v) \<in> set d \<Longrightarrow> size v < size (JObj d)"
  by (induction d) auto

lemma size_element: "x \<in> set xs \<Longrightarrow> size x < size (JList xs)"
  by (induction xs) auto

lemma connect_after_traverse:
  assumes "traverse env x st = Inr (None, st')" and "is_record x"
  shows "\<exists>st''. connect env n p x st' = Inr st''"
proof -
  from assms(2) obtain d where x: "x = JObj d" by (cases x) (simp_all add: is_record_def)
  have "map_of d ''id'' \<noteq> None"
  proof
    assume "map_of d ''id'' = None"
    then have "traverse env (JObj d) st = Inr (Some (JObj d), st)" by (rule traverse_no_id)
    with assms(1) [unfolded x] have "Inr (Some (JObj d), st) = (Inr (None, st') :: error + json option \<times> state)"
      by (simp only:)
    then show False by simp
  qed
  with traverse_returns_str_id [of d env st None st'] assms(1) x
  obtain j where "map_of d ''id'' = Some (JStr j)" by blast
  with x show ?thesis by (simp add: connect_id)
qed

lemma parse_list_total:
  assumes "\<And>x st. x \<in> set xs \<Longrightarrow> \<exists>r st'. traverse env x st = Inr (r, st')"
    and "\<And>x. x \<in> set xs \<Longrightarrow> is_record x"
  shows "\<exists>p st'. parse_list env n k xs props st = Inr (p, st')"
  using assms
proof (induction xs arbitrary: props st)
  case Nil
  then show ?case by simp
next
  case (Cons x xs)
  from Cons.prems(1) [of x st] obtain r st1 where tr: "traverse env x st = Inr (r, st1)" by auto
  have rest: "\<And>props st. \<exists>p st'. parse_list env n k xs props st = Inr (p, st')"
  proof (rule Cons.IH)
    fix y st assume "y \<in> set xs"
    then show "\<exists>r st'. traverse env y st = Inr (r, st')" using Cons.prems(1) [of y st] by simp
  next
    fix y assume "y \<in> set xs"
    then show "is_record y" using Cons.prems(2) [of y] by simp
  qed
  show ?case
  proof (cases r)
    case None
    with tr Cons.prems(2) [of x] connect_after_traverse [of env x st st1]
    obtain st2 where "connect env n (convert_predicate_name k) x st1 = Inr st2" by auto
    with tr None rest [of props st2] show ?thesis by simp
  next
    case (Some pv)
    with tr rest [of "AList.update k pv props" st1] show ?thesis by simp
  qed
qed

lemma parse_items_total:
  assumes "\<And>k v st. (k, v) \<in> set d \<Longrightarrow> is_record v \<Longrightarrow> \<exists>r st'. traverse env v st = Inr (r, st')"
    and "\<And>k xs props st. (k, JList xs) \<in> set d \<Longrightarrow>
           \<exists>p st'. parse_list env n k xs props st = Inr (p, st')"
  shows "\<exists>p st'. parse_items env n d props st = Inr (p, st')"
  using assms
proof (induction d arbitrary: props st)
  case Nil
  then show ?case by simp
next
  case (Cons kv d)
  obtain k v where kv: "kv = (k, v)" by (cases kv)
  have rest: "\<And>props st. \<exists>p st'. parse_items env n d props st = Inr (p, st')"
  proof (rule Cons.IH)
    fix k v st assume "(k, v) \<in> set d" "is_record v"
    then show "\<exists>r st'. traverse env v st = Inr (r, st')" using Cons.prems(1) [of k v st] by simp
  next
    fix k xs props st assume "(k, JList xs) \<in> set d"
    then show "\<exists>p st'. parse_list env n k xs props st = Inr (p, st')"
      using Cons.prems(2) [of k xs props st] by simp
  qed
  show ?case
  proof (cases "k = ''id''")
    case True
    with kv rest [of props st] show ?thesis by simp
  next
    case False
    show ?thesis
    proof (cases v)
      case (JList xs)
      with Cons.prems(2) [of k xs props st] kv
      obtain p1 st1 where "parse_list env n k xs props st = Inr (p1, st1)" by auto
      with kv False JList rest [of p1 st1] show ?thesis by simp
    next
      case (JObj o')
      with Cons.prems(1) [of k v st] kv
      obtain r st1 where tr: "traverse env (JObj o') st = Inr (r, st1)"
        by (auto simp: is_record_def)
      show ?thesis
      proof (cases r)
        case None
        with tr connect_after_traverse [of env "JObj o'" st st1]
        obtain st2 where "connect env n (convert_predicate_name k) (JObj o') st1 = Inr st2"
          by (auto simp: is_record_def)
        with tr None kv False JObj rest [of props st2] show ?thesis by simp
      next
        case (Some pv)
        with tr kv False JObj rest [of "AList.update k pv props" st1] show ?thesis by simp
      qed
    qed (use kv False rest [of "AList.update k v props" st] in simp_all)
  qed
qed

lemma link_location_total:
  assumes "x = JNull \<or> (reference x \<and> (\<exists>r st'. traverse env x st = Inr (r, st')))"
  shows "\<exists>st'. link_location env i label x st = Inr st'"
  using assms
proof
  assume "x = JNull"
  then show ?thesis by (simp add: link_location_absent)
next
  assume a: "reference x \<and> (\<exists>r st'. traverse env x st = Inr (r, st'))"
  then obtain d where x: "x = JObj d" and "map_of d ''id'' \<noteq> None"
    by (cases x) (auto simp: reference_def split: option.splits)
  with a link_location_id [of d env st _ _ i label] show ?thesis by blast
qed

lemma reference_record: "reference x \<Longrightarrow> is_record x"
  by (cases x) (simp_all add: reference_def is_record_def)

lemma traverse_total:
  "well_formed x \<Longrightarrow> is_record x \<Longrightarrow> \<exists>r st'. traverse env x st = Inr (r, st')"
proof (induction x arbitrary: st rule: measure_induct_rule [where f = size])
  case (less x)
  from less.prems(2) obtain d where x: "x = JObj d" by (cases x) (simp_all add: is_record_def)
  show ?case
  proof (cases "map_of d ''id''")
    case None
    with x show ?thesis by simp
  next
    case (Some v)
    with less.prems(1) x obtain i where i: "map_of d ''id'' = Some (JStr i)"
      and loc: "location_ok d" and items: "well_formed_items d"
      by (cases v) auto
    have sub: "\<And>y st. well_formed y \<Longrightarrow> is_record y \<Longrightarrow> size y < size (JObj d) \<Longrightarrow>
                 \<exists>r st'. traverse env y st = Inr (r, st')"
      using less.IH x by blast
    have vals: "\<And>k v st. (k, v) \<in> set d \<Longrightarrow> is_record v \<Longrightarrow> \<exists>r st'. traverse env v st = Inr (r, st')"
    proof -
      fix k v st assume kv: "(k, v) \<in> set d" and "is_record v"
      with items size_member [OF kv] show "\<exists>r st'. traverse env v st = Inr (r, st')"
        by (intro sub) (auto dest: well_formed_items_value)
    qed
    have lists: "\<And>k xs props st. (k, JList xs) \<in> set d \<Longrightarrow>
        \<exists>p st'. parse_list env (convert_id env i) k xs props st = Inr (p, st')"
    proof -
      fix k xs props st assume kv: "(k, JList xs) \<in> set d"
      with items have wl: "well_formed_elements xs"
        using well_formed_items_value [of d k "JList xs"] by simp
      show "\<exists>p st'. parse_list env (convert_id env i) k xs props st = Inr (p, st')"
      proof (rule parse_list_total)
        fix y st assume y: "y \<in> set xs"
        with wl have "is_record y" "well_formed y"
          using well_formed_elements_member by blast+
        moreover have "size y < size (JObj d)"
          using size_element [OF y] size_member [OF kv] by simp
        ultimately show "\<exists>r st'. traverse env y st = Inr (r, st')" using sub by blast
      next
        fix y assume "y \<in> set xs"
        with wl show "is_record y" using well_formed_elements_member by blast
      qed
    qed
    have "\<exists>p st'. parse_items env (convert_id env i) d [] st = Inr (p, st')"
    proof (rule parse_items_total)
      fix k v st assume "(k, v) \<in> set d" "is_record v"
      then show "\<exists>r st'. traverse env v st = Inr (r, st')" by (rule vals)
    next
      fix k xs props st assume "(k, JList xs) \<in> set d"
      then show "\<exists>p st'. parse_list env (convert_id env i) k xs props st = Inr (p, st')"
        by (rule lists)
    qed
    then obtain props st1 where pp: "parse_props env (convert_id env i) d st = Inr (props, st1)"
      by auto
    have "\<exists>loc_info. extract_location_info env d = Inr loc_info
        \<and> (\<forall>k \<in> {''location_country'', ''geoprecision''}.
              dict_get loc_info k = JNull
              \<or> reference (dict_get loc_info k) \<and> well_formed (dict_get loc_info k)
                \<and> size (dict_get loc_info k) < size (JObj d))"
    proof (cases "map_of d ''locatedAt''")
      case None
      then show ?thesis by (simp add: extract_location_info_def dict_get_def)
    next
      case (Some l)
      with loc obtain la where l: "l = JObj la"
        by (cases l) (simp_all add: location_ok_def)
      from loc_info_entries [of d la env] Some l obtain loc_info where
        li: "extract_location_info env d = Inr loc_info" and
        e1: "dict_get loc_info ''location_country'' = dict_get la ''locationCountry''" and
        e2: "dict_get loc_info ''geoprecision'' = dict_get la ''geoprecision''"
        by auto
      from Some l have "(''locatedAt'', JObj la) \<in> set d" by (simp add: map_of_SomeD)
      with items have wla: "well_formed_items la"
        using well_formed_items_value [of d "''locatedAt''" "JObj la"] by simp
      have wv: "\<And>key. dict_get la key \<noteq> JNull \<Longrightarrow> well_formed (dict_get la key)"
      proof -
        fix key assume "dict_get la key \<noteq> JNull"
        then have "(key, dict_get la key) \<in> set la"
          by (auto simp: dict_get_def split: option.splits dest: map_of_SomeD)
        with wla show "well_formed (dict_get la key)" by (rule well_formed_items_value)
      qed
      from loc Some l have
        r1: "dict_get la ''locationCountry'' = JNull \<or> reference (dict_get la ''locationCountry'')" and
        r2: "dict_get la ''geoprecision'' = JNull \<or> reference (dict_get la ''geoprecision'')"
        by (simp_all add: location_ok_def)
      from li e1 e2 r1 r2 wv size_loc_info [OF li] show ?thesis
        by (metis insertE singletonD)
    qed
    then obtain loc_info where li: "extract_location_info env d = Inr loc_info" and
      ok: "\<And>k. k \<in> {''location_country'', ''geoprecision''} \<Longrightarrow>
              dict_get loc_info k = JNull
              \<or> reference (dict_get loc_info k) \<and> well_formed (dict_get loc_info k)
                \<and> size (dict_get loc_info k) < size (JObj d)"
      by blast
    have link: "\<And>k label st. k \<in> {''location_country'', ''geoprecision''} \<Longrightarrow>
        \<exists>st'. link_location env i label (dict_get loc_info k) st = Inr st'"
    proof (rule link_location_total)
      fix k :: string and st
      assume "k \<in> {''location_country'', ''geoprecision''}"
      from ok [OF this] sub [of "dict_get loc_info k" st] reference_record
      show "dict_get loc_info k = JNull
        \<or> reference (dict_get loc_info k) \<and> (\<exists>r st'. traverse env (dict_get loc_info k) st = Inr (r, st'))"
        by blast
    qed
    let ?st2 = "store_object env d (convert_id env i) i (fst (type_info d)) (snd (type_info d))
                  loc_info props st1"
    obtain st4 where l1: "link_location env i ''location-country''
        (dict_get loc_info ''location_country'') ?st2 = Inr st4"
      using link [of "''location_country''" "''location-country''" ?st2] by auto
    obtain st5 where l2: "link_location env i ''geoprecision''
        (dict_get loc_info ''geoprecision'') st4 = Inr st5"
      using link [of "''geoprecision''" "''geoprecision''" st4] by auto
    have "traverse env (JObj d) st = Inr (None, st5)"
      by (simp only: traverse_record [OF i] li pp l1 l2 sum.case prod.case)
    with x show ?thesis by blast
  qed
qed

text \<open>
  C1: a record without \<^verbatim>\<open>id\<close> is handed back unchanged, with both accumulators
  untouched, and never raises. A record with \<^verbatim>\<open>id\<close> either raises (the whole pass
  ends there) or returns \<^verbatim>\<open>None\<close>. So whenever \<^verbatim>\<open>traverse\<close> returns, it
  returns \<^verbatim>\<open>None\<close> if and only if the record has an \<^verbatim>\<open>id\<close>; and on a record
  that keeps the input contract it does return.
\<close>

theorem traverse_result:
  "(map_of subj ''id'' = None \<longrightarrow> traverse env (JObj subj) st = Inr (Some (JObj subj), st))
   \<and> (map_of subj ''id'' \<noteq> None \<longrightarrow>
        (\<exists>e. traverse env (JObj subj) st = Inl e)
        \<or> (\<exists>st'. traverse env (JObj subj) st = Inr (None, st')))
   \<and> (\<forall>r st'. traverse env (JObj subj) st = Inr (r, st') \<longrightarrow>
        (r = None \<longleftrightarrow> map_of subj ''id'' \<noteq> None))
   \<and> (well_formed (JObj subj) \<and> map_of subj ''id'' \<noteq> None \<longrightarrow>
        (\<exists>st'. traverse env (JObj subj) st = Inr (None, st')))"
proof -
  have cases: "map_of subj ''id'' \<noteq> None \<Longrightarrow>
        (\<exists>e. traverse env (JObj subj) st = Inl e)
        \<or> (\<exists>st'. traverse env (JObj subj) st = Inr (None, st'))"
    by (rule traverse_id_cases)
  have none: "map_of subj ''id'' = None \<Longrightarrow> traverse env (JObj subj) st = Inr (Some (JObj subj), st)"
    by (rule traverse_no_id)
  have total: "well_formed (JObj subj) \<Longrightarrow> \<exists>r st'. traverse env (JObj subj) st = Inr (r, st')"
    by (rule traverse_total) (simp_all add: is_record_def)
  show ?thesis
  proof (cases "map_of subj ''id'' = None")
    case True
    with none show ?thesis by simp
  next
    case False
    with cases total show ?thesis by auto
  qed
qed

theorem traverse_result_witness:
  "\<forall>env st.
     traverse env (JObj [(''label'', JStr ''Org'')]) st = Inr (Some (JObj [(''label'', JStr ''Org'')]), st)
   \<and> well_formed (JObj [(''id'', JStr ''xyz''), (''label'', JStr ''Org'')])
   \<and> (\<exists>st'. traverse env (JObj [(''id'', JStr ''xyz''), (''label'', JStr ''Org'')]) st = Inr (None, st'))"
proof (intro allI)
  fix env st
  let ?r = "[(''id'', JStr ''xyz''), (''label'', JStr ''Org'')]"
  have 1: "map_of [(''label'', JStr ''Org'')] ''id'' = None" by simp
  have 2: "map_of ?r ''id'' \<noteq> None" by simp
  have 3: "well_formed (JObj ?r)" by (simp add: location_ok_def)
  from traverse_result [of ?r env st] 2 3
  have 5: "\<exists>st'. traverse env (JObj ?r) st = Inr (None, st')" by blast
  from traverse_result [of "[(''label'', JStr ''Org'')]" env st] 1
  have 6: "traverse env (JObj [(''label'', JStr ''Org'')]) st = Inr (Some (JObj [(''label'', JStr ''Org'')]), st)"
    by blast
  from 3 5 6 show "traverse env (JObj [(''label'', JStr ''Org'')]) st = Inr (Some (JObj [(''label'', JStr ''Org'')]), st)
   \<and> well_formed (JObj ?r)
   \<and> (\<exists>st'. traverse env (JObj ?r) st = Inr (None, st'))"
    by blast
qed

text \<open>
  What a traversal leaves alone: a connection does not touch the objects, the store
  writes one name only, and a call of \<^verbatim>\<open>traverse\<close> changes the objects only under
  the names of the records it stores.
\<close>

lemma connect_objects: "connect env n p x st = Inr st' \<Longrightarrow> objects st' = objects st"
  by (auto simp: connect_def append_connection_def split: sum.splits)

lemma store_object_other:
  "k \<noteq> n \<Longrightarrow> map_of (objects (store_object env subj n x t jt loc_info props st)) k = map_of (objects st) k"
  by (simp add: store_object_def Let_def map_of_map_entry update_conv')

lemma stored_ids_elements_member:
  "x \<in> set xs \<Longrightarrow> set (stored_ids x) \<subseteq> set (stored_ids_elements xs)"
  by (induction xs) auto

lemma stored_ids_items_record:
  "(k, JObj d') \<in> set d \<Longrightarrow> k \<noteq> ''id'' \<Longrightarrow> set (stored_ids (JObj d')) \<subseteq> set (stored_ids_items d)"
  by (induction d) (auto simp del: stored_ids.simps)

lemma stored_ids_items_list:
  "(k, JList xs) \<in> set d \<Longrightarrow> k \<noteq> ''id'' \<Longrightarrow> x \<in> set xs \<Longrightarrow>
     set (stored_ids x) \<subseteq> set (stored_ids_items d)"
  using stored_ids_elements_member [of x xs]
  by (induction d) (auto simp del: stored_ids.simps)

lemma stored_ids_items_located:
  "(''locatedAt'', JObj la) \<in> set d \<Longrightarrow> set (stored_ids_branches la) \<subseteq> set (stored_ids_items d)"
  by (induction d) (auto simp del: stored_ids.simps)

lemma stored_ids_located_member:
  "(k, v) \<in> set la \<Longrightarrow> k = ''locationCountry'' \<or> k = ''geoprecision'' \<Longrightarrow>
     set (stored_ids v) \<subseteq> set (stored_ids_branches la)"
  by (induction la) (auto simp del: stored_ids.simps)

lemma stored_ids_dict_get:
  assumes "k = ''locationCountry'' \<or> k = ''geoprecision''"
  shows "set (stored_ids (dict_get la k)) \<subseteq> set (stored_ids_branches la)"
proof (cases "map_of la k")
  case None
  then show ?thesis by (simp add: dict_get_def)
next
  case (Some v)
  then have "(k, v) \<in> set la" by (rule map_of_SomeD)
  from stored_ids_located_member [OF this assms] Some show ?thesis by (simp add: dict_get_def)
qed

lemma loc_info_stored_ids:
  assumes li: "extract_location_info env d = Inr loc_info"
  shows "set (stored_ids (dict_get loc_info ''location_country'')) \<subseteq> set (location_stored_ids d)
       \<and> set (stored_ids (dict_get loc_info ''geoprecision'')) \<subseteq> set (location_stored_ids d)"
proof (cases "map_of d ''locatedAt''")
  case None
  then have "\<And>k. dict_get loc_info k = JNull" using li by (rule loc_info_absent)
  then show ?thesis by simp
next
  case (Some v)
  with li obtain la where v: "v = JObj la"
    by (cases v) (auto simp: extract_location_info_def)
  from loc_info_entries [of d la env] Some v li have
    "dict_get loc_info ''location_country'' = dict_get la ''locationCountry''"
    "dict_get loc_info ''geoprecision'' = dict_get la ''geoprecision''"
    by simp_all
  with Some v show ?thesis by (simp add: location_stored_ids_def)
qed

lemma location_stored_ids_items:
  "set (location_stored_ids d) \<subseteq> set (stored_ids_items d)"
proof (cases "map_of d ''locatedAt''")
  case None
  then show ?thesis by (simp add: location_stored_ids_def)
next
  case (Some v)
  show ?thesis
  proof (cases "\<exists>la. v = JObj la")
    case True
    then obtain la where v: "v = JObj la" ..
    with Some have "(''locatedAt'', JObj la) \<in> set d" by (simp add: map_of_SomeD)
    then have "set (stored_ids_branches la) \<subseteq> set (stored_ids_items d)"
      by (rule stored_ids_items_located)
    moreover have "set (stored_ids (dict_get la ''locationCountry'')) \<subseteq> set (stored_ids_branches la)"
      "set (stored_ids (dict_get la ''geoprecision'')) \<subseteq> set (stored_ids_branches la)"
      by (rule stored_ids_dict_get, simp)+
    ultimately show ?thesis using Some v by (auto simp: location_stored_ids_def)
  next
    case False
    with Some show ?thesis by (cases v) (simp_all add: location_stored_ids_def)
  qed
qed

lemma parse_list_frame:
  assumes "\<And>x st r st'. x \<in> set xs \<Longrightarrow> traverse env x st = Inr (r, st') \<Longrightarrow>
             map_of (objects st') n = map_of (objects st) n"
    and "parse_list env nm k xs props st = Inr (p, st')"
  shows "map_of (objects st') n = map_of (objects st) n"
  using assms
proof (induction xs arbitrary: props st)
  case Nil
  then show ?case by simp
next
  case (Cons x xs)
  have rest: "\<And>props s. parse_list env nm k xs props s = Inr (p, st') \<Longrightarrow>
      map_of (objects st') n = map_of (objects s) n"
  proof (rule Cons.IH)
    fix y st r st' assume "y \<in> set xs" "traverse env y st = Inr (r, st')"
    then show "map_of (objects st') n = map_of (objects st) n"
      using Cons.prems(1) [of y st r st'] by simp
  qed
  from Cons.prems(2) obtain r s1 where tr: "traverse env x st = Inr (r, s1)"
    by (cases "traverse env x st") auto
  have f1: "map_of (objects s1) n = map_of (objects st) n"
    using Cons.prems(1) [of x st r s1] tr by simp
  show ?case
  proof (cases r)
    case None
    with tr Cons.prems(2) obtain s2 where
      c: "connect env nm (convert_predicate_name k) x s1 = Inr s2" and
      pl: "parse_list env nm k xs props s2 = Inr (p, st')"
      by (cases "connect env nm (convert_predicate_name k) x s1") auto
    from connect_objects [OF c] rest [OF pl] f1 show ?thesis by simp
  next
    case (Some pv)
    with tr Cons.prems(2) have "parse_list env nm k xs (AList.update k pv props) s1 = Inr (p, st')"
      by simp
    from rest [OF this] f1 show ?thesis by simp
  qed
qed

lemma parse_items_frame:
  assumes "\<And>k d' st r st'. (k, JObj d') \<in> set d \<Longrightarrow> k \<noteq> ''id'' \<Longrightarrow>
             traverse env (JObj d') st = Inr (r, st') \<Longrightarrow>
             map_of (objects st') n = map_of (objects st) n"
    and "\<And>k xs x st r st'. (k, JList xs) \<in> set d \<Longrightarrow> k \<noteq> ''id'' \<Longrightarrow> x \<in> set xs \<Longrightarrow>
             traverse env x st = Inr (r, st') \<Longrightarrow>
             map_of (objects st') n = map_of (objects st) n"
    and "parse_items env nm d props st = Inr (p, st')"
  shows "map_of (objects st') n = map_of (objects st) n"
  using assms
proof (induction d arbitrary: props st)
  case Nil
  then show ?case by simp
next
  case (Cons kv d)
  obtain k v where kv: "kv = (k, v)" by (cases kv)
  have rest: "\<And>props s. parse_items env nm d props s = Inr (p, st') \<Longrightarrow>
      map_of (objects st') n = map_of (objects s) n"
  proof (rule Cons.IH)
    fix k d' st r st'
    assume "(k, JObj d') \<in> set d" "k \<noteq> ''id''" "traverse env (JObj d') st = Inr (r, st')"
    then show "map_of (objects st') n = map_of (objects st) n"
      using Cons.prems(1) [of k d' st r st'] by simp
  next
    fix k xs x st r st'
    assume "(k, JList xs) \<in> set d" "k \<noteq> ''id''" "x \<in> set xs" "traverse env x st = Inr (r, st')"
    then show "map_of (objects st') n = map_of (objects st) n"
      using Cons.prems(2) [of k xs x st r st'] by simp
  qed
  show ?case
  proof (cases "k = ''id''")
    case True
    with kv Cons.prems(3) have "parse_items env nm d props st = Inr (p, st')" by simp
    then show ?thesis by (rule rest)
  next
    case False
    show ?thesis
    proof (cases v)
      case (JList xs)
      with kv False Cons.prems(3) obtain p1 s1 where
        pl: "parse_list env nm k xs props st = Inr (p1, s1)" and
        pi: "parse_items env nm d p1 s1 = Inr (p, st')"
        by (cases "parse_list env nm k xs props st") auto
      have "map_of (objects s1) n = map_of (objects st) n"
      proof (rule parse_list_frame [OF _ pl])
        fix x st r st' assume "x \<in> set xs" "traverse env x st = Inr (r, st')"
        then show "map_of (objects st') n = map_of (objects st) n"
          using Cons.prems(2) [of k xs x st r st'] kv JList False by simp
      qed
      with rest [OF pi] show ?thesis by simp
    next
      case (JObj d')
      with kv False Cons.prems(3) obtain r s1 where tr: "traverse env (JObj d') st = Inr (r, s1)"
        by (cases "traverse env (JObj d') st") auto
      have f1: "map_of (objects s1) n = map_of (objects st) n"
        using Cons.prems(1) [of k d' st r s1] kv JObj False tr by simp
      show ?thesis
      proof (cases r)
        case None
        with tr kv False JObj Cons.prems(3) obtain s2 where
          c: "connect env nm (convert_predicate_name k) (JObj d') s1 = Inr s2" and
          pi: "parse_items env nm d props s2 = Inr (p, st')"
          by (cases "connect env nm (convert_predicate_name k) (JObj d') s1") auto
        from connect_objects [OF c] rest [OF pi] f1 show ?thesis by simp
      next
        case (Some pv)
        with tr kv False JObj Cons.prems(3)
        have "parse_items env nm d (AList.update k pv props) s1 = Inr (p, st')" by simp
        from rest [OF this] f1 show ?thesis by simp
      qed
    qed (use kv False Cons.prems(3) rest [of "AList.update k v props" st] in simp_all)
  qed
qed

lemma link_location_frame:
  assumes "\<And>r s1. traverse env x st = Inr (r, s1) \<Longrightarrow> map_of (objects s1) n = map_of (objects st) n"
    and "link_location env i label x st = Inr st'"
  shows "map_of (objects st') n = map_of (objects st) n"
proof (cases "x = JNull")
  case True
  with assms(2) show ?thesis by (simp add: link_location_absent)
next
  case False
  with assms(2) obtain r s1 where tr: "traverse env x st = Inr (r, s1)"
    and c: "connect env (convert_id env i) label x s1 = Inr st'"
    unfolding link_location_def by (cases "traverse env x st") auto
  from assms(1) [OF tr] connect_objects [OF c] show ?thesis by simp
qed

lemma traverse_frame:
  "traverse env x st = Inr (r, st') \<Longrightarrow> n \<notin> convert_id env ` set (stored_ids x) \<Longrightarrow>
     map_of (objects st') n = map_of (objects st) n"
proof (induction x arbitrary: st r st' rule: measure_induct_rule [where f = size])
  case (less x)
  show ?case
  proof (cases "\<exists>d. x = JObj d")
    case False
    with less.prems(1) have "st' = st"
      by (cases x) (auto split: sum.splits if_splits)
    then show ?thesis by simp
  next
    case True
    then obtain d where x: "x = JObj d" ..
    from less.prems(1) x have tr: "traverse env (JObj d) st = Inr (r, st')" by simp
    show ?thesis
    proof (cases "map_of d ''id'' = None")
      case True
      then have "traverse env (JObj d) st = Inr (Some (JObj d), st)" by (rule traverse_no_id)
      with tr have "st' = st" by simp
      then show ?thesis by simp
    next
      case False
      from traverse_returns_str_id [OF False tr] obtain i where i: "map_of d ''id'' = Some (JStr i)" ..
      from less.prems(2) x i have ne: "n \<noteq> convert_id env i"
        and items: "n \<notin> convert_id env ` set (stored_ids_items d)"
        by auto
      from traverse_returns [OF i tr] obtain loc_info props st1 st4 where
        li: "extract_location_info env d = Inr loc_info" and
        pp: "parse_props env (convert_id env i) d st = Inr (props, st1)" and
        l1: "link_location env i ''location-country'' (dict_get loc_info ''location_country'')
              (store_object env d (convert_id env i) i (fst (type_info d))
                 (snd (type_info d)) loc_info props st1) = Inr st4" and
        l2: "link_location env i ''geoprecision'' (dict_get loc_info ''geoprecision'') st4 = Inr st'"
        by blast
      let ?st2 = "store_object env d (convert_id env i) i (fst (type_info d))
                 (snd (type_info d)) loc_info props st1"
      have sub: "\<And>y s r s'. size y < size (JObj d) \<Longrightarrow>
                   set (stored_ids y) \<subseteq> set (stored_ids_items d) \<Longrightarrow>
                   traverse env y s = Inr (r, s') \<Longrightarrow>
                   map_of (objects s') n = map_of (objects s) n"
      proof -
        fix y s r s'
        assume sz: "size y < size (JObj d)"
          and ss: "set (stored_ids y) \<subseteq> set (stored_ids_items d)"
          and ty: "traverse env y s = Inr (r, s')"
        from ss items have "n \<notin> convert_id env ` set (stored_ids y)" by blast
        with less.IH [of y s r s'] sz ty x show "map_of (objects s') n = map_of (objects s) n"
          by simp
      qed
      from pp have pi: "parse_items env (convert_id env i) d [] st = Inr (props, st1)" by simp
      have f1: "map_of (objects st1) n = map_of (objects st) n"
      proof (rule parse_items_frame [OF _ _ pi])
        fix k d' s r s'
        assume kv: "(k, JObj d') \<in> set d" and k: "k \<noteq> ''id''"
          and ty: "traverse env (JObj d') s = Inr (r, s')"
        from size_member [OF kv] stored_ids_items_record [OF kv k] ty
        show "map_of (objects s') n = map_of (objects s) n" by (rule sub)
      next
        fix k xs y s r s'
        assume kv: "(k, JList xs) \<in> set d" and k: "k \<noteq> ''id''" and y: "y \<in> set xs"
          and ty: "traverse env y s = Inr (r, s')"
        have "size y < size (JObj d)"
          using size_element [OF y] size_member [OF kv] by simp
        from this stored_ids_items_list [OF kv k y] ty
        show "map_of (objects s') n = map_of (objects s) n" by (rule sub)
      qed
      have f2: "map_of (objects ?st2) n = map_of (objects st1) n"
        using ne by (rule store_object_other)
      have loc: "\<And>key. key = ''location_country'' \<or> key = ''geoprecision'' \<Longrightarrow>
          set (stored_ids (dict_get loc_info key)) \<subseteq> set (stored_ids_items d)"
        using loc_info_stored_ids [OF li] location_stored_ids_items [of d] by auto
      have branch: "\<And>key label s s'. key = ''location_country'' \<or> key = ''geoprecision'' \<Longrightarrow>
          link_location env i label (dict_get loc_info key) s = Inr s' \<Longrightarrow>
          map_of (objects s') n = map_of (objects s) n"
      proof -
        fix key :: string and label s s'
        assume key: "key = ''location_country'' \<or> key = ''geoprecision''"
          and ll: "link_location env i label (dict_get loc_info key) s = Inr s'"
        show "map_of (objects s') n = map_of (objects s) n"
        proof (cases "dict_get loc_info key = JNull")
          case True
          with ll show ?thesis by (simp add: link_location_absent)
        next
          case False
          show ?thesis
          proof (rule link_location_frame [OF _ ll])
            fix r s1 assume ty: "traverse env (dict_get loc_info key) s = Inr (r, s1)"
            from size_loc_info [OF li False] loc [OF key] ty
            show "map_of (objects s1) n = map_of (objects s) n" by (rule sub)
          qed
        qed
      qed
      have f3: "map_of (objects st4) n = map_of (objects ?st2) n"
        by (rule branch [OF _ l1]) simp
      have f4: "map_of (objects st') n = map_of (objects st4) n"
        by (rule branch [OF _ l2]) simp
      from f1 f2 f3 f4 show ?thesis by simp
    qed
  qed
qed

lemma link_location_keeps:
  assumes "link_location env i label x st = Inr st'"
    and "n \<notin> convert_id env ` set (stored_ids x)"
  shows "map_of (objects st') n = map_of (objects st) n"
proof (rule link_location_frame [OF _ assms(1)])
  fix r s1 assume "traverse env x st = Inr (r, s1)"
  from this assms(2) show "map_of (objects s1) n = map_of (objects st) n" by (rule traverse_frame)
qed

lemma convert_type_equipment_family:
  "convert_type ''https://data.janes.com/ontologies/equipment/EquipmentFamily'' = ''equipment-family''"
proof -
  have a: "final_segment ''https://data.janes.com/ontologies/equipment/EquipmentFamily'' = ''EquipmentFamily''"
    using final_segment_append [of "''EquipmentFamily''" "''https://data.janes.com/ontologies/equipment''"]
    by simp
  have b: "convert_predicate_name ''EquipmentFamily'' = ''equipment-family''"
    by (simp add: convert_predicate_name_def upper_def lower_def ascii_lowercase_def ascii_uppercase_def)
  have c: "str_lower ''equipment-family'' = ''equipment-family''"
    by (simp add: str_lower_def lower_def ascii_lowercase_def ascii_uppercase_def)
  show ?thesis
    by (simp add: convert_type_def os_path_split_eq a b c)
qed

text \<open>
  C7, as the spec states it, fails: the object of a record is stored at line 220, before
  the two location branches run, and a sub-record under \<^verbatim>\<open>locationCountry\<close> (or
  \<^verbatim>\<open>geoprecision\<close>) with the same \<^verbatim>\<open>id\<close> is stored after it under the same
  name. The record below has no \<^verbatim>\<open>type\<close> and keeps the input contract; the only
  object that \<^verbatim>\<open>traverse\<close> returns for it has the type \<^verbatim>\<open>equipment-family\<close> and
  the class \<^verbatim>\<open>Property\<close> of its sub-record.
\<close>

theorem missing_type_defaults_counterexample:
  "\<forall>env.
     map_of [(''id'', JStr ''a/b''),
             (''locatedAt'', JObj [(''locationCountry'',
                JObj [(''id'', JStr ''a/b''),
                      (''type'', JStr ''https://data.janes.com/ontologies/equipment/EquipmentFamily'')])])]
        ''type'' = None
   \<and> well_formed (JObj [(''id'', JStr ''a/b''),
             (''locatedAt'', JObj [(''locationCountry'',
                JObj [(''id'', JStr ''a/b''),
                      (''type'', JStr ''https://data.janes.com/ontologies/equipment/EquipmentFamily'')])])])
   \<and> traverse env
        (JObj [(''id'', JStr ''a/b''),
               (''locatedAt'', JObj [(''locationCountry'',
                  JObj [(''id'', JStr ''a/b''),
                        (''type'', JStr ''https://data.janes.com/ontologies/equipment/EquipmentFamily'')])])])
        \<lparr>objects = [], connections = []\<rparr> =
       Inr (None,
         \<lparr>objects =
            [(convert_id env ''a/b'',
              \<lparr>alias = JStr (convert_id env ''a/b''), domain = ''military'',
               object_class = ''Property'', name = convert_id env ''a/b'', xid = ''a/b'',
               type = ''equipment-family'',
               item = [(''type'', JStr ''https://data.janes.com/ontologies/equipment/EquipmentFamily'')],
               project = project_uid env, geometry = None\<rparr>)],
          connections = [(convert_id env ''a/b'', ''location-country'', convert_id env ''a/b'')]\<rparr>)"
  apply (intro allI conjI)
    apply simp
   apply (simp add: location_ok_def dict_get_def reference_def)
  apply (simp add: traverse_record)
  apply (simp add: extract_location_info_def dict_get_def Let_def link_location_def
      type_info_def getitem_def store_object_def new_object_def object_class_of_def
      type_class_map_def connect_def subscript_def as_str_def append_connection_def
      convert_type_equipment_family)
  done

text \<open>
  C7 (amended): for every record with an \<^verbatim>\<open>id\<close> and without a \<^verbatim>\<open>type\<close> on which
  \<^verbatim>\<open>traverse\<close> returns (it returns on every record that keeps the input contract), the
  objects returned hold under the record's name an object with the type \<^verbatim>\<open>*\<close> and
  the class \<^verbatim>\<open>Entity\<close>, provided that no record stored by its two location branches
  has the same name. A type that \<^verbatim>\<open>type_class_map\<close> does not list has the class
  \<^verbatim>\<open>Entity\<close>.
\<close>

theorem missing_type_defaults:
  "(\<forall>i r st'. map_of subj ''type'' = None \<and> map_of subj ''id'' = Some (JStr i)
        \<and> traverse env (JObj subj) st = Inr (r, st')
        \<and> (\<forall>j \<in> set (location_stored_ids subj). convert_id env j \<noteq> convert_id env i) \<longrightarrow>
      (\<exists>obj. map_of (objects st') (convert_id env i) = Some obj
        \<and> type obj = ''*'' \<and> object_class obj = ''Entity''))
   \<and> (map_of type_class_map t = None \<longrightarrow> object_class_of t = ''Entity'')
   \<and> (well_formed (JObj subj) \<longrightarrow> (\<exists>r st'. traverse env (JObj subj) st = Inr (r, st')))"
proof (intro conjI allI impI)
  show "map_of type_class_map t = None \<Longrightarrow> object_class_of t = ''Entity''"
    by (simp add: object_class_of_def)
next
  assume "well_formed (JObj subj)"
  then show "\<exists>r st'. traverse env (JObj subj) st = Inr (r, st')"
    by (rule traverse_total) (simp_all add: is_record_def)
next
  fix i r st'
  assume a: "map_of subj ''type'' = None \<and> map_of subj ''id'' = Some (JStr i)
        \<and> traverse env (JObj subj) st = Inr (r, st')
        \<and> (\<forall>j \<in> set (location_stored_ids subj). convert_id env j \<noteq> convert_id env i)"
  then have tr: "traverse env (JObj subj) st = Inr (r, st')"
    and ty: "map_of subj ''type'' = None"
    and i: "map_of subj ''id'' = Some (JStr i)"
    and other: "convert_id env i \<notin> convert_id env ` set (location_stored_ids subj)"
    by auto
  let ?n = "convert_id env i"
  from traverse_returns [OF i tr] obtain loc_info props st1 st4 where
    li: "extract_location_info env subj = Inr loc_info" and
    l1: "link_location env i ''location-country'' (dict_get loc_info ''location_country'')
              (store_object env subj ?n i (fst (type_info subj))
                 (snd (type_info subj)) loc_info props st1) = Inr st4" and
    l2: "link_location env i ''geoprecision'' (dict_get loc_info ''geoprecision'') st4 = Inr st'"
    by blast
  let ?st2 = "store_object env subj ?n i (fst (type_info subj)) (snd (type_info subj))
                loc_info props st1"
  define obj where "obj = (new_object env subj ?n i (object_class_of (fst (type_info subj)))
                             (snd (type_info subj)) props)
             \<lparr>geometry := (if dict_get loc_info ''geometry'' \<noteq> JNull
                           then Some (dict_get loc_info ''geometry'') else None)\<rparr>"
  have lk: "map_of (objects ?st2) ?n = Some obj"
    unfolding obj_def by (rule store_object_lookup)
  have ti: "type_info subj = ([], ''*'')" using ty by (rule type_info_missing)
  have tyo: "type obj = ''*''" "object_class obj = ''Entity''"
    unfolding obj_def by (simp_all add: ti new_object_def object_class_of_empty)
  from loc_info_stored_ids [OF li] other have
    o1: "?n \<notin> convert_id env ` set (stored_ids (dict_get loc_info ''location_country''))" and
    o2: "?n \<notin> convert_id env ` set (stored_ids (dict_get loc_info ''geoprecision''))"
    by blast+
  have "map_of (objects st') ?n = map_of (objects st4) ?n"
    using l2 o2 by (rule link_location_keeps)
  also have "\<dots> = map_of (objects ?st2) ?n"
    using l1 o1 by (rule link_location_keeps)
  finally have "map_of (objects st') ?n = Some obj" using lk by simp
  with tyo show "\<exists>obj. map_of (objects st') (convert_id env i) = Some obj
        \<and> type obj = ''*'' \<and> object_class obj = ''Entity''"
    by blast
qed

theorem missing_type_defaults_witness:
  "\<forall>env. (\<exists>st' obj.
      traverse env
        (JObj [(''id'', JStr ''e/1''),
               (''locatedAt'', JObj [(''locationCountry'',
                  JObj [(''id'', JStr ''o/9''),
                        (''type'', JStr ''https://data.janes.com/ontologies/equipment/EquipmentFamily'')])])])
        \<lparr>objects = [], connections = []\<rparr> = Inr (None, st')
      \<and> map_of (objects st') (convert_id env ''e/1'') = Some obj
      \<and> type obj = ''*'' \<and> object_class obj = ''Entity'')
    \<and> object_class_of ''https://x/ontologies/equipment/Equipment'' = ''Entity''"
proof
  fix env
  let ?subj = "[(''id'', JStr ''e/1''),
               (''locatedAt'', JObj [(''locationCountry'',
                  JObj [(''id'', JStr ''o/9''),
                        (''type'', JStr ''https://data.janes.com/ontologies/equipment/EquipmentFamily'')])])]"
  let ?st = "\<lparr>objects = [], connections = []\<rparr>"
  let ?t = "''https://x/ontologies/equipment/Equipment''"
  have h1: "map_of ?subj ''type'' = None" by simp
  have h2: "map_of type_class_map ?t = None" by (simp add: type_class_map_def)
  have h3: "map_of ?subj ''id'' = Some (JStr ''e/1'')" by simp
  have h4: "well_formed (JObj ?subj)" by (simp add: location_ok_def dict_get_def reference_def)
  have ids: "location_stored_ids ?subj = [''o/9'']"
    by (simp add: location_stored_ids_def dict_get_def)
  have h5: "\<forall>j \<in> set (location_stored_ids ?subj). convert_id env j \<noteq> convert_id env ''e/1''"
    unfolding ids by (simp add: convert_id_short)
  from missing_type_defaults [of ?subj env ?st ?t] h4
  obtain r st' where tr: "traverse env (JObj ?subj) ?st = Inr (r, st')" by blast
  have r: "r = None" using traverse_returns [OF h3 tr] by blast
  from missing_type_defaults [of ?subj env ?st ?t] h2
  have cls: "object_class_of ?t = ''Entity''" by blast
  from missing_type_defaults [of ?subj env ?st ?t] h1 h3 tr h5
  obtain obj where "map_of (objects st') (convert_id env ''e/1'') = Some obj" "type obj = ''*''"
    "object_class obj = ''Entity''"
    by blast
  with tr r cls show "(\<exists>st' obj.
      traverse env (JObj ?subj) ?st = Inr (None, st')
      \<and> map_of (objects st') (convert_id env ''e/1'') = Some obj
      \<and> type obj = ''*'' \<and> object_class obj = ''Entity'')
    \<and> object_class_of ?t = ''Entity''" by blast
qed

text \<open>
  C10: once the properties of a record with an \<^verbatim>\<open>id\<close> are parsed, what
  \<^verbatim>\<open>traverse\<close> returns is decided by the two location branches, first
  \<^verbatim>\<open>location-country\<close>, then \<^verbatim>\<open>geoprecision\<close>, on the sub-records that
  \<^verbatim>\<open>locatedAt\<close> holds under \<^verbatim>\<open>locationCountry\<close> and \<^verbatim>\<open>geoprecision\<close>.
  A branch does nothing for a missing sub-record. For a sub-record with an \<^verbatim>\<open>id\<close>
  whose own traversal returns (as it does when the sub-record keeps the input contract),
  the branch does not raise and appends the connection from the owner to the identifier
  of the sub-record, after that traversal. For a sub-record
  without \<^verbatim>\<open>id\<close> the lookup raises KeyError, any other value raises as well, and
  so the traversal of a record that holds such a sub-record raises.
\<close>

theorem location_links:
  "(\<forall>i loc_info props st1.
      map_of subj ''id'' = Some (JStr i) \<and> extract_location_info env subj = Inr loc_info
      \<and> parse_props env (convert_id env i) subj st = Inr (props, st1) \<longrightarrow>
      traverse env (JObj subj) st =
        (case link_location env i ''location-country'' (dict_get loc_info ''location_country'')
                (store_object env subj (convert_id env i) i (fst (type_info subj))
                   (snd (type_info subj)) loc_info props st1) of
           Inl e \<Rightarrow> Inl e
         | Inr st4 \<Rightarrow>
            (case link_location env i ''geoprecision'' (dict_get loc_info ''geoprecision'') st4 of
               Inl e \<Rightarrow> Inl e
             | Inr st5 \<Rightarrow> Inr (None, st5))))
   \<and> (\<forall>la. map_of subj ''locatedAt'' = Some (JObj la) \<longrightarrow>
        (\<exists>loc_info. extract_location_info env subj = Inr loc_info
           \<and> dict_get loc_info ''location_country'' = dict_get la ''locationCountry''
           \<and> dict_get loc_info ''geoprecision'' = dict_get la ''geoprecision''))
   \<and> link_location env owner label JNull s = Inr s
   \<and> (\<forall>(d::dict) r s'. map_of d ''id'' \<noteq> None \<and> traverse env (JObj d) s = Inr (r, s') \<longrightarrow>
        (\<exists>j. map_of d ''id'' = Some (JStr j)
           \<and> link_location env owner label (JObj d) s =
               Inr (append_connection (convert_id env owner, label, convert_id env j) s')))
   \<and> (\<forall>(d::dict). map_of d ''id'' = None \<longrightarrow> link_location env owner label (JObj d) s = Inl KeyError)
   \<and> (\<forall>x. x \<noteq> JNull \<and> (\<forall>d. x \<noteq> JObj d) \<longrightarrow> (\<exists>e. link_location env owner label x s = Inl e))
   \<and> (\<forall>la (d::dict). map_of subj ''id'' \<noteq> None \<and> map_of subj ''locatedAt'' = Some (JObj la)
        \<and> (map_of la ''locationCountry'' = Some (JObj d) \<or> map_of la ''geoprecision'' = Some (JObj d))
        \<and> map_of d ''id'' = None \<longrightarrow>
        (\<exists>e. traverse env (JObj subj) st = Inl e))
   \<and> (\<forall>x. reference x \<and> well_formed x \<longrightarrow> (\<exists>s'. link_location env owner label x s = Inr s'))"
proof (intro conjI allI impI)
  fix x assume "reference x \<and> well_formed x"
  then have "reference x \<and> (\<exists>r st'. traverse env x s = Inr (r, st'))"
    using traverse_total [of x env s] reference_record [of x] by blast
  then show "\<exists>s'. link_location env owner label x s = Inr s'"
    by (intro link_location_total) simp
next
  fix i loc_info props st1
  assume "map_of subj ''id'' = Some (JStr i) \<and> extract_location_info env subj = Inr loc_info
      \<and> parse_props env (convert_id env i) subj st = Inr (props, st1)"
  then show "traverse env (JObj subj) st =
        (case link_location env i ''location-country'' (dict_get loc_info ''location_country'')
                (store_object env subj (convert_id env i) i (fst (type_info subj))
                   (snd (type_info subj)) loc_info props st1) of
           Inl e \<Rightarrow> Inl e
         | Inr st4 \<Rightarrow>
            (case link_location env i ''geoprecision'' (dict_get loc_info ''geoprecision'') st4 of
               Inl e \<Rightarrow> Inl e
             | Inr st5 \<Rightarrow> Inr (None, st5)))"
    by (simp only: traverse_record sum.case prod.case)
next
  fix la assume "map_of subj ''locatedAt'' = Some (JObj la)"
  then show "\<exists>loc_info. extract_location_info env subj = Inr loc_info
           \<and> dict_get loc_info ''location_country'' = dict_get la ''locationCountry''
           \<and> dict_get loc_info ''geoprecision'' = dict_get la ''geoprecision''"
    by (rule loc_info_entries)
next
  show "link_location env owner label JNull s = Inr s" by (rule link_location_absent)
next
  fix d :: dict and r s' assume "map_of d ''id'' \<noteq> None \<and> traverse env (JObj d) s = Inr (r, s')"
  then show "\<exists>j. map_of d ''id'' = Some (JStr j)
           \<and> link_location env owner label (JObj d) s =
               Inr (append_connection (convert_id env owner, label, convert_id env j) s')"
    using link_location_id by blast
next
  fix d :: dict assume "map_of d ''id'' = None"
  then show "link_location env owner label (JObj d) s = Inl KeyError" by (rule link_location_no_id)
next
  fix x assume "x \<noteq> JNull \<and> (\<forall>d. x \<noteq> JObj d)"
  then show "\<exists>e. link_location env owner label x s = Inl e" using link_location_not_dict by blast
next
  fix la and d :: dict
  assume "map_of subj ''id'' \<noteq> None \<and> map_of subj ''locatedAt'' = Some (JObj la)
        \<and> (map_of la ''locationCountry'' = Some (JObj d) \<or> map_of la ''geoprecision'' = Some (JObj d))
        \<and> map_of d ''id'' = None"
  then show "\<exists>e. traverse env (JObj subj) st = Inl e"
    using traverse_faults_without_sub_id by blast
qed

lemma traverse_country_without_id:
  "traverse env
     (JObj [(''id'', JStr ''a/b''),
            (''locatedAt'', JObj [(''locationCountry'', JObj [(''label'', JStr ''US'')])])])
     \<lparr>objects = [], connections = []\<rparr> = Inl KeyError"
  by (simp add: getitem_def as_str_def extract_location_info_def dict_get_def Let_def
      connect_def subscript_def)

lemma traverse_country_with_id:
  "\<exists>st'. traverse env
       (JObj [(''id'', JStr ''a/b''),
              (''locatedAt'', JObj [(''locationCountry'', JObj [(''id'', JStr ''c/US'')])])])
       \<lparr>objects = [], connections = []\<rparr> = Inr (None, st')
     \<and> connections st' = [(convert_id env ''a/b'', ''location-country'', convert_id env ''c/US'')]"
  by (simp add: getitem_def as_str_def extract_location_info_def dict_get_def Let_def
      connect_def subscript_def append_connection_def store_object_def)

theorem location_links_witness:
  "\<forall>env.
     (\<exists>st'. traverse env
         (JObj [(''id'', JStr ''a/b''),
                (''locatedAt'', JObj [(''locationCountry'', JObj [(''id'', JStr ''c/US'')])])])
         \<lparr>objects = [], connections = []\<rparr> = Inr (None, st')
       \<and> connections st' = [(convert_id env ''a/b'', ''location-country'', convert_id env ''c/US'')])
   \<and> traverse env
         (JObj [(''id'', JStr ''a/b''),
                (''locatedAt'', JObj [(''locationCountry'', JObj [(''label'', JStr ''US'')])])])
         \<lparr>objects = [], connections = []\<rparr> = Inl KeyError
   \<and> (\<forall>st. link_location env ''a/b'' ''location-country'' (JObj [(''id'', JStr ''c/US'')]) st
         = Inr (append_connection (convert_id env ''a/b'', ''location-country'', convert_id env ''c/US'')
                  (store_object env [(''id'', JStr ''c/US'')] (convert_id env ''c/US'') ''c/US''
                     [] ''*'' [] [] st)))"
proof (intro allI conjI)
  fix env
  let ?st = "\<lparr>objects = [], connections = []\<rparr>"
  let ?d = "[(''label'', JStr ''US'')]"
  let ?lb = "[(''locationCountry'', JObj ?d)]"
  let ?bad = "[(''id'', JStr ''a/b''), (''locatedAt'', JObj ?lb)]"
  note L = location_links [where subj = ?bad and env = env and st = ?st]
  note L7 = L [THEN conjunct2, THEN conjunct2, THEN conjunct2, THEN conjunct2, THEN conjunct2,
      THEN conjunct2, THEN conjunct1, rule_format, of ?lb ?d]
  have "\<exists>e. traverse env (JObj ?bad) ?st = Inl e"
    by (rule L7) simp
  then show "traverse env (JObj ?bad) ?st = Inl KeyError"
    using traverse_country_without_id [of env] by simp
next
  fix env
  show "\<exists>st'. traverse env
         (JObj [(''id'', JStr ''a/b''),
                (''locatedAt'', JObj [(''locationCountry'', JObj [(''id'', JStr ''c/US'')])])])
         \<lparr>objects = [], connections = []\<rparr> = Inr (None, st')
       \<and> connections st' = [(convert_id env ''a/b'', ''location-country'', convert_id env ''c/US'')]"
    by (rule traverse_country_with_id)
next
  fix env st
  let ?c = "[(''id'', JStr ''c/US'')]"
  let ?s' = "store_object env ?c (convert_id env ''c/US'') ''c/US'' [] ''*'' [] [] st"
  note L = location_links [where env = env and owner = "''a/b''" and label = "''location-country''"
      and s = st]
  note L4 = L [THEN conjunct2, THEN conjunct2, THEN conjunct2, THEN conjunct1, rule_format,
      of ?c None ?s']
  have tr: "traverse env (JObj ?c) st = Inr (None, ?s')"
    by (simp add: getitem_def as_str_def extract_location_info_def dict_get_def Let_def
        type_info_def)
  have "\<exists>j. map_of ?c ''id'' = Some (JStr j)
      \<and> link_location env ''a/b'' ''location-country'' (JObj ?c) st
          = Inr (append_connection (convert_id env ''a/b'', ''location-country'', convert_id env j) ?s')"
    by (rule L4, rule conjI, simp, rule tr)
  then show "link_location env ''a/b'' ''location-country'' (JObj ?c) st
         = Inr (append_connection (convert_id env ''a/b'', ''location-country'', convert_id env ''c/US'') ?s')"
    by auto
qed

section \<open>The driver: what holds\<close>

text \<open>Nothing after \<^verbatim>\<open>exit()\<close> runs: what is left of \<^verbatim>\<open>main\<close>.\<close>

lemma main_calls:
  "main env data =
     (case traverse_all env
             (equip data @ installations data @ inventory data @
              military_groups data @ organizations data @ units data)
             \<lparr>objects = [], connections = []\<rparr> of
        Inl e \<Rightarrow> Raised e []
      | Inr st \<Rightarrow> Exited [Add_predicates ''JanesOntology'' (unique_predicates (connections st))])"
  by (simp add: main_def split: sum.splits)

lemma predicates_short:
  "convert_predicate_name ''partOf'' = ''part-of''"
  "convert_predicate_name ''sameAs'' = ''same-as''"
  by (simp_all add: convert_predicate_name_def upper_def lower_def ascii_lowercase_def ascii_uppercase_def)

lemma traverse_self_loop_record:
  "\<exists>e1 o9. traverse env self_loop_record \<lparr>objects = [], connections = []\<rparr> =
     Inr (None,
       \<lparr>objects = [(convert_id env ''o/9'', o9), (convert_id env ''e/1'', e1)],
        connections =
          [(convert_id env ''e/1'', ''part-of'', convert_id env ''o/9''),
           (convert_id env ''e/1'', ''same-as'', convert_id env ''e/1'')]\<rparr>)"
proof -
  have neq: "convert_id env ''e/1'' \<noteq> convert_id env ''o/9''"
    by (simp add: convert_id_short)
  then have neq': "convert_id env ''o/9'' \<noteq> convert_id env ''e/1''" by simp
  show ?thesis
    unfolding self_loop_record_def
    using neq neq'
    by (simp add: predicates_short getitem_def as_str_def type_info_def extract_location_info_def
        dict_get_def store_object_def Let_def connect_def subscript_def append_connection_def)
qed

lemma conn_objects_filter:
  "conn_objects objs cs = Inr r \<Longrightarrow>
     list_all2 (\<lambda>c (sub, pred, obj). map_of objs sub = Some (subject c) \<and> predicate c = pred
                   \<and> map_of objs obj = Some (object' c))
       r (filter (\<lambda>(sub, pred, obj). sub \<noteq> obj) cs)"
proof (induction cs arbitrary: r)
  case Nil
  then show ?case by simp
next
  case (Cons c cs)
  obtain sub pred obj where c: "c = (sub, pred, obj)" by (cases c)
  show ?case
  proof (cases "sub = obj")
    case True
    with Cons c show ?thesis by simp
  next
    case False
    with Cons.prems c obtain s ob r' where
      "map_of objs sub = Some s" "map_of objs obj = Some ob" "conn_objects objs cs = Inr r'"
      "r = \<lparr>subject = s, predicate = pred, object' = ob\<rparr> # r'"
      by (auto split: option.splits sum.splits)
    with Cons.IH [of r'] False c show ?thesis by simp
  qed
qed

lemma traverse_all_self_loop:
  "\<exists>e1 o9. traverse_all env [self_loop_record] \<lparr>objects = [], connections = []\<rparr> =
     Inr \<lparr>objects = [(convert_id env ''o/9'', o9), (convert_id env ''e/1'', e1)],
          connections =
            [(convert_id env ''e/1'', ''part-of'', convert_id env ''o/9''),
             (convert_id env ''e/1'', ''same-as'', convert_id env ''e/1'')]\<rparr>"
proof -
  from traverse_self_loop_record [of env] obtain e1 o9 where
    "traverse env self_loop_record \<lparr>objects = [], connections = []\<rparr> =
     Inr (None,
       \<lparr>objects = [(convert_id env ''o/9'', o9), (convert_id env ''e/1'', e1)],
        connections =
          [(convert_id env ''e/1'', ''part-of'', convert_id env ''o/9''),
           (convert_id env ''e/1'', ''same-as'', convert_id env ''e/1'')]\<rparr>)"
    by blast
  then have "traverse_all env [self_loop_record] \<lparr>objects = [], connections = []\<rparr> =
     Inr \<lparr>objects = [(convert_id env ''o/9'', o9), (convert_id env ''e/1'', e1)],
          connections =
            [(convert_id env ''e/1'', ''part-of'', convert_id env ''o/9''),
             (convert_id env ''e/1'', ''same-as'', convert_id env ''e/1'')]\<rparr>"
    by simp
  then show ?thesis by blast
qed

lemma write_connections_one: "write_connections [c] 10 = [Add_connections [c] True]"
  by (simp add: write_connections_def)

text \<open>
  C8: the traversal never filters, so a connection from a record to itself stays in the
  list (here \<^verbatim>\<open>same-as\<close>), and the comprehension of lines 313 to 320 keeps exactly
  the triples with different ends: handed to \<^verbatim>\<open>write_connections\<close>, they would
  go out in one batch. But \<^verbatim>\<open>main\<close> never gets there. Line 305 is \<^verbatim>\<open>exit()\<close>:
  for every input the run either ends in an exception of the traversal, with no call
  made, or ends at \<^verbatim>\<open>exit()\<close> with \<^verbatim>\<open>add_predicates\<close> as its only call. No
  object is saved and no connection is handed over.
\<close>

theorem main_exits_before_saving:
  "((\<exists>e. main env data = Raised e [])
      \<or> (\<exists>ps. main env data = Exited [Add_predicates ''JanesOntology'' ps]))
   \<and> (\<exists>st0 e1 o9.
         traverse_all env [self_loop_record] \<lparr>objects = [], connections = []\<rparr> = Inr st0
       \<and> connections st0 =
           [(convert_id env ''e/1'', ''part-of'', convert_id env ''o/9''),
            (convert_id env ''e/1'', ''same-as'', convert_id env ''e/1'')]
       \<and> conn_objects (objects st0) (connections st0) =
           Inr [\<lparr>subject = e1, predicate = ''part-of'', object' = o9\<rparr>]
       \<and> write_connections [\<lparr>subject = e1, predicate = ''part-of'', object' = o9\<rparr>] 10 =
           [Add_connections [\<lparr>subject = e1, predicate = ''part-of'', object' = o9\<rparr>] True]
       \<and> main env \<lparr>equip = [self_loop_record], installations = [], inventory = [],
                    military_groups = [], organizations = [], units = []\<rparr> =
           Exited [Add_predicates ''JanesOntology'' [''part-of'', ''same-as'']])"
proof
  show "(\<exists>e. main env data = Raised e [])
      \<or> (\<exists>ps. main env data = Exited [Add_predicates ''JanesOntology'' ps])"
    by (simp add: main_calls split: sum.splits)
next
  have neq: "convert_id env ''e/1'' \<noteq> convert_id env ''o/9''"
    by (simp add: convert_id_short)
  from traverse_all_self_loop [of env] obtain e1 o9 where
    tr: "traverse_all env [self_loop_record] \<lparr>objects = [], connections = []\<rparr> =
     Inr \<lparr>objects = [(convert_id env ''o/9'', o9), (convert_id env ''e/1'', e1)],
          connections =
            [(convert_id env ''e/1'', ''part-of'', convert_id env ''o/9''),
             (convert_id env ''e/1'', ''same-as'', convert_id env ''e/1'')]\<rparr>"
    by blast
  let ?st0 = "\<lparr>objects = [(convert_id env ''o/9'', o9), (convert_id env ''e/1'', e1)],
          connections =
            [(convert_id env ''e/1'', ''part-of'', convert_id env ''o/9''),
             (convert_id env ''e/1'', ''same-as'', convert_id env ''e/1'')]\<rparr>"
  have co: "conn_objects (objects ?st0) (connections ?st0) =
           Inr [\<lparr>subject = e1, predicate = ''part-of'', object' = o9\<rparr>]"
    using neq by simp
  have mn: "main env \<lparr>equip = [self_loop_record], installations = [], inventory = [],
                    military_groups = [], organizations = [], units = []\<rparr> =
           Exited [Add_predicates ''JanesOntology'' [''part-of'', ''same-as'']]"
  proof -
    have "main env \<lparr>equip = [self_loop_record], installations = [], inventory = [],
                    military_groups = [], organizations = [], units = []\<rparr> =
        (case traverse_all env [self_loop_record] \<lparr>objects = [], connections = []\<rparr> of
           Inl e \<Rightarrow> Raised e []
         | Inr st \<Rightarrow> Exited [Add_predicates ''JanesOntology'' (unique_predicates (connections st))])"
      unfolding main_calls by (simp del: traverse_all.simps)
    then show ?thesis
      unfolding tr by (simp add: unique_predicates_def)
  qed
  show "\<exists>st0 e1 o9.
         traverse_all env [self_loop_record] \<lparr>objects = [], connections = []\<rparr> = Inr st0
       \<and> connections st0 =
           [(convert_id env ''e/1'', ''part-of'', convert_id env ''o/9''),
            (convert_id env ''e/1'', ''same-as'', convert_id env ''e/1'')]
       \<and> conn_objects (objects st0) (connections st0) =
           Inr [\<lparr>subject = e1, predicate = ''part-of'', object' = o9\<rparr>]
       \<and> write_connections [\<lparr>subject = e1, predicate = ''part-of'', object' = o9\<rparr>] 10 =
           [Add_connections [\<lparr>subject = e1, predicate = ''part-of'', object' = o9\<rparr>] True]
       \<and> main env \<lparr>equip = [self_loop_record], installations = [], inventory = [],
                    military_groups = [], organizations = [], units = []\<rparr> =
           Exited [Add_predicates ''JanesOntology'' [''part-of'', ''same-as'']]"
    apply (rule exI [of _ ?st0], rule exI [of _ e1], rule exI [of _ o9])
    using tr co mn write_connections_one by simp
qed

lemma set_unique_predicates: "set (unique_predicates cs) = (\<lambda>(sub, pred, obj). pred) ` set cs"
  by (simp add: unique_predicates_def)

text \<open>
  C9: when the traversal returns, the one call that \<^verbatim>\<open>main\<close> makes is
  \<^verbatim>\<open>add_predicates\<close> for the trait \<^verbatim>\<open>JanesOntology\<close>, with the predicates of
  the connections: each predicate of the list once, none else, whatever the order and
  the multiplicity of the connections. It is the first call of every run that makes a
  call, so nothing is saved before it.
\<close>

theorem registered_predicates:
  "(\<forall>st. traverse_all env
             (equip data @ installations data @ inventory data @
              military_groups data @ organizations data @ units data)
             \<lparr>objects = [], connections = []\<rparr> = Inr st \<longrightarrow>
       calls_of (main env data) =
         [Add_predicates ''JanesOntology'' (unique_predicates (connections st))])
   \<and> set (unique_predicates cs) = (\<lambda>(sub, pred, obj). pred) ` set cs
   \<and> distinct (unique_predicates cs)
   \<and> (set cs = set cs' \<longrightarrow> set (unique_predicates cs) = set (unique_predicates cs'))
   \<and> (calls_of (main env data) = []
        \<or> (\<exists>ps rest. calls_of (main env data) = Add_predicates ''JanesOntology'' ps # rest))"
proof (intro conjI allI impI)
  fix st
  assume "traverse_all env
             (equip data @ installations data @ inventory data @
              military_groups data @ organizations data @ units data)
             \<lparr>objects = [], connections = []\<rparr> = Inr st"
  then show "calls_of (main env data) =
         [Add_predicates ''JanesOntology'' (unique_predicates (connections st))]"
    by (simp add: main_calls)
next
  show "set (unique_predicates cs) = (\<lambda>(sub, pred, obj). pred) ` set cs"
    by (rule set_unique_predicates)
next
  show "distinct (unique_predicates cs)" by (simp add: unique_predicates_def)
next
  assume "set cs = set cs'"
  then show "set (unique_predicates cs) = set (unique_predicates cs')"
    by (simp add: set_unique_predicates)
next
  show "calls_of (main env data) = []
        \<or> (\<exists>ps rest. calls_of (main env data) = Add_predicates ''JanesOntology'' ps # rest)"
    by (simp add: main_calls split: sum.splits)
qed

theorem registered_predicates_witness:
  "\<forall>env.
     calls_of (main env \<lparr>equip = [example_record], installations = [], inventory = [],
                  military_groups = [], organizations = [], units = []\<rparr>)
       = [Add_predicates ''JanesOntology'' [''part-of'']]
   \<and> set (unique_predicates
            [(''a'', ''located-at'', ''b''), (''c'', ''located-at'', ''d''), (''a'', ''part-of'', ''d'')])
       = {''located-at'', ''part-of''}
   \<and> set (unique_predicates
            [(''a'', ''part-of'', ''d''), (''c'', ''located-at'', ''d''), (''a'', ''located-at'', ''b'')])
       = {''located-at'', ''part-of''}
   \<and> length (unique_predicates
            [(''a'', ''located-at'', ''b''), (''c'', ''located-at'', ''d''), (''a'', ''part-of'', ''d'')]) = 2"
proof
  fix env
  let ?data = "\<lparr>equip = [example_record], installations = [], inventory = [],
                  military_groups = [], organizations = [], units = []\<rparr>"
  let ?cs = "[(''a'', ''located-at'', ''b''), (''c'', ''located-at'', ''d''), (''a'', ''part-of'', ''d'')]"
  let ?cs' = "[(''a'', ''part-of'', ''d''), (''c'', ''located-at'', ''d''), (''a'', ''located-at'', ''b'')]"
  note R = registered_predicates [where env = env and data = ?data and cs = ?cs and cs' = ?cs']
  obtain st where st: "traverse_all env [example_record] \<lparr>objects = [], connections = []\<rparr> = Inr st"
    and cst: "connections st = [(convert_id env ''https://x/equipment/Equipment/123'', ''part-of'',
            convert_id env ''https://x/organization/Organization/9'')]"
    using traverse_example_record [of env] by simp
  have "calls_of (main env ?data) = [Add_predicates ''JanesOntology'' (unique_predicates (connections st))]"
    by (rule R [THEN conjunct1, rule_format, of st]) (simp add: st del: traverse_all.simps)
  then have 1: "calls_of (main env ?data) = [Add_predicates ''JanesOntology'' [''part-of'']]"
    by (simp add: cst unique_predicates_def)
  have 2: "set (unique_predicates ?cs) = {''located-at'', ''part-of''}"
    using R [THEN conjunct2, THEN conjunct1] by auto
  have "set ?cs = set ?cs'" by auto
  then have "set (unique_predicates ?cs) = set (unique_predicates ?cs')"
    using R [THEN conjunct2, THEN conjunct2, THEN conjunct2, THEN conjunct1] by blast
  with 2 have 3: "set (unique_predicates ?cs') = {''located-at'', ''part-of''}" by simp
  have 4: "length (unique_predicates ?cs) = 2" by (simp add: unique_predicates_def)
  from 1 2 3 4 show "calls_of (main env ?data) = [Add_predicates ''JanesOntology'' [''part-of'']]
   \<and> set (unique_predicates ?cs) = {''located-at'', ''part-of''}
   \<and> set (unique_predicates ?cs') = {''located-at'', ''part-of''}
   \<and> length (unique_predicates ?cs) = 2"
    by blast
qed

end
